theory Spec2Isabelle
  imports Complex_Main "HOL-Library.AList" "HOL-Library.Word"
begin

section \<open>The stream relay of src/services/websocketService.ts\<close>

text \<open>
  The development embeds the FFmpeg based \<open>WebSocketService\<close> (the class with the
  \<open>ffmpegProcess\<close> field, \<open>PING_INTERVAL = 60000\<close> and \<open>PONG_TIMEOUT = 30000\<close>) and
  the shutdown path of \<open>src/index.ts\<close>.

  Every callback of the service is a function from the service state to the service
  state. Objects that the source shares by reference (a \<open>ClientConnection\<close> is held by
  the \<open>clients\<close> map and by the closures registered on its socket and on its FFmpeg
  process) live in an explicit store \<open>heap\<close>; the address of an object is its index.
  The registry \<open>clients\<close> maps a client id to the address of its object and keeps the
  insertion order of the JavaScript \<open>Map\<close>. Console output is not part of the state.
\<close>

subsection \<open>Data model\<close>

type_synonym buffer = "8 word list"

datatype ready_state = CONNECTING | OPEN | CLOSING | CLOSED

datatype signal = SIGTERM | SIGKILL

text \<open>The objects handed to \<open>sendToClient\<close>: \<open>{type: "connection", message, clientId}\<close>
  and \<open>{type: "error", message}\<close>.\<close>

datatype control = ConnectionMsg string string | ErrorMsg string

datatype out_frame = JsonText control | BinaryOut buffer

text \<open>What the service can observe of a \<open>ws\<close> socket: its \<open>readyState\<close>, the frames
  passed to \<open>send\<close>, the number of \<open>ping()\<close> calls and whether \<open>terminate()\<close> destroyed
  the connection.\<close>

record websocket =
  readyState :: ready_state
  sent :: "out_frame list"
  pings :: nat
  terminated :: bool

record writable =
  destroyed :: bool
  written :: "buffer list"

text \<open>A \<open>ChildProcess\<close>: the \<open>killed\<close> flag, whether the operating system process
  still exists (\<open>running\<close>), the signals delivered to it and its \<open>stdin\<close> stream.\<close>

record child_process =
  killed :: bool
  running :: bool
  signals :: "signal list"
  stdin :: "writable option"

record client_connection =
  client_id :: string
  ws :: websocket
  isAlive :: bool
  lastPing :: int
  ffmpegProcess :: "child_process option"

text \<open>\<open>timeouts\<close> holds the pending force-kill timers of \<open>cleanupClient\<close>: the delay in
  milliseconds and the address of the captured client object.\<close>

record service =
  heap :: "client_connection list"
  clients :: "(string \<times> nat) list"
  pingInterval :: bool
  wss_listening :: bool
  timeouts :: "(nat \<times> nat) list"

definition PING_INTERVAL :: int where
  "PING_INTERVAL = 60000"

definition PONG_TIMEOUT :: int where
  "PONG_TIMEOUT = 30000"

text \<open>The state after the constructor: no client, the ping timer armed, the socket server
  listening.\<close>

definition initial_service :: service where
  "initial_service =
     \<lparr>heap = [], clients = [], pingInterval = True, wss_listening = True, timeouts = []\<rparr>"

subsection \<open>Store and registry access\<close>

definition deref :: "service \<Rightarrow> nat \<Rightarrow> client_connection option" where
  "deref s a = (if a < length (heap s) then Some (heap s ! a) else None)"

definition store :: "nat \<Rightarrow> client_connection \<Rightarrow> service \<Rightarrow> service" where
  "store a c s = s\<lparr>heap := (heap s)[a := c]\<rparr>"

text \<open>\<open>this.clients.get(clientId)\<close>: the address and the object, or \<open>undefined\<close>.\<close>

definition clients_get :: "service \<Rightarrow> string \<Rightarrow> (nat \<times> client_connection) option" where
  "clients_get s k =
     (case map_of (clients s) k of
        None \<Rightarrow> None
      | Some a \<Rightarrow> (case deref s a of None \<Rightarrow> None | Some c \<Rightarrow> Some (a, c)))"

definition clients_delete :: "string \<Rightarrow> service \<Rightarrow> service" where
  "clients_delete k s = s\<lparr>clients := AList.delete k (clients s)\<rparr>"

definition clients_set :: "string \<Rightarrow> nat \<Rightarrow> service \<Rightarrow> service" where
  "clients_set k a s = s\<lparr>clients := AList.update k a (clients s)\<rparr>"

subsection \<open>The runtime objects\<close>

text \<open>\<open>ws.send\<close>, \<open>ws.ping\<close>, \<open>ws.close\<close> and \<open>ws.terminate\<close> of the \<open>ws\<close> library. The
  service calls \<open>send\<close> and \<open>ping\<close> only after it has tested \<open>readyState === OPEN\<close>, where
  neither throws. \<open>close\<close> and \<open>terminate\<close> do nothing on a closed socket and leave any
  other socket in state \<open>CLOSING\<close>.\<close>

definition ws_send :: "out_frame \<Rightarrow> websocket \<Rightarrow> websocket" where
  "ws_send f w = w\<lparr>sent := sent w @ [f]\<rparr>"

definition ws_ping :: "websocket \<Rightarrow> websocket" where
  "ws_ping w = w\<lparr>pings := Suc (pings w)\<rparr>"

definition ws_close :: "websocket \<Rightarrow> websocket" where
  "ws_close w = (if readyState w = CLOSED then w else w\<lparr>readyState := CLOSING\<rparr>)"

definition ws_terminate :: "websocket \<Rightarrow> websocket" where
  "ws_terminate w =
     (if readyState w = CLOSED then w else w\<lparr>readyState := CLOSING, terminated := True\<rparr>)"

text \<open>\<open>ChildProcess.kill(signal)\<close> of Node: the signal is delivered and \<open>killed\<close> is set
  when the process still exists; otherwise the call changes nothing.\<close>

definition kill :: "signal \<Rightarrow> child_process \<Rightarrow> child_process" where
  "kill sig p =
     (if running p then p\<lparr>killed := True, signals := signals p @ [sig]\<rparr> else p)"

text \<open>What Node does to a \<open>ChildProcess\<close> before it emits \<open>exit\<close>, or \<open>error\<close> for a
  binary that could not be launched: the process is gone and \<open>stdin\<close> is destroyed.\<close>

definition process_gone :: "child_process \<Rightarrow> child_process" where
  "process_gone p =
     p\<lparr>running := False,
       stdin := (case stdin p of None \<Rightarrow> None | Some i \<Rightarrow> Some (i\<lparr>destroyed := True\<rparr>))\<rparr>"

subsection \<open>sendToClient, sendToFFmpeg, createFFmpegProcess, cleanupClient\<close>

definition sendToClient :: "string \<Rightarrow> control \<Rightarrow> service \<Rightarrow> service" where
  "sendToClient clientId d s =
     (case clients_get s clientId of
        None \<Rightarrow> s
      | Some (a, client) \<Rightarrow>
          if readyState (ws client) = OPEN
          then store a (client\<lparr>ws := ws_send (JsonText d) (ws client)\<rparr>) s
          else s)"

definition sendToFFmpeg :: "string \<Rightarrow> buffer \<Rightarrow> service \<Rightarrow> service" where
  "sendToFFmpeg clientId videoBuffer s =
     (case clients_get s clientId of
        None \<Rightarrow> s
      | Some (a, client) \<Rightarrow>
          (case ffmpegProcess client of
             None \<Rightarrow> s
           | Some p \<Rightarrow>
               if killed p then s
               else (case stdin p of
                       None \<Rightarrow> s
                     | Some i \<Rightarrow>
                         if \<not> destroyed i
                         then store a
                                (client\<lparr>ffmpegProcess :=
                                   Some (p\<lparr>stdin := Some (i\<lparr>written := written i @ [videoBuffer]\<rparr>)\<rparr>)\<rparr>) s
                         else s)))"

text \<open>The outcome of \<open>spawn("ffmpeg", ...)\<close> is an input of the model: either the call
  throws, or it returns a \<open>ChildProcess\<close> object.\<close>

datatype spawn_error = SpawnError

definition createFFmpegProcess ::
  "string \<Rightarrow> spawn_error + child_process \<Rightarrow> service \<Rightarrow> service" where
  "createFFmpegProcess clientId spawned s =
     (case clients_get s clientId of
        None \<Rightarrow> s
      | Some (a, client) \<Rightarrow>
          (case spawned of
             Inr ffmpeg \<Rightarrow> store a (client\<lparr>ffmpegProcess := Some ffmpeg\<rparr>) s
           | Inl e \<Rightarrow>
               sendToClient clientId
                 (ErrorMsg ''Failed to initialize black & white video processing'') s))"

definition cleanupClient :: "string \<Rightarrow> service \<Rightarrow> service" where
  "cleanupClient clientId s =
     (case clients_get s clientId of
        None \<Rightarrow> s
      | Some (a, client) \<Rightarrow>
          clients_delete clientId
            (case ffmpegProcess client of
               None \<Rightarrow> s
             | Some p \<Rightarrow>
                 if \<not> killed p
                 then (store a (client\<lparr>ffmpegProcess := Some (kill SIGTERM p)\<rparr>) s)
                        \<lparr>timeouts := timeouts s @ [(5000, a)]\<rparr>
                 else s))"

text \<open>The callback of the five second timer armed by \<open>cleanupClient\<close>; it reads the
  captured client object.\<close>

definition force_kill :: "nat \<Rightarrow> service \<Rightarrow> service" where
  "force_kill a s =
     (case deref s a of
        None \<Rightarrow> s
      | Some client \<Rightarrow>
          (case ffmpegProcess client of
             None \<Rightarrow> s
           | Some p \<Rightarrow>
               if \<not> killed p
               then store a (client\<lparr>ffmpegProcess := Some (kill SIGKILL p)\<rparr>) s
               else s))"

subsection \<open>Inbound frames\<close>

text \<open>\<open>WebSocket.Data\<close> as the message callback receives it: a text frame as a string
  (kept as its UTF-8 bytes, one \<open>char\<close> each), a binary frame as a \<open>Buffer\<close>.\<close>

datatype ws_data = Str string | Buf buffer

text \<open>\<open>Buffer.isBuffer(data) ? data : Buffer.from(data)\<close>.\<close>

fun to_buffer :: "ws_data \<Rightarrow> buffer" where
  "to_buffer (Buf b) = b"
| "to_buffer (Str t) = map of_char t"

text \<open>The values \<open>JSON.parse\<close> returns. The parser itself is the runtime's and is a
  parameter of the message handler: \<open>None\<close> stands for the \<open>SyntaxError\<close> it throws.\<close>

datatype json =
    JNull
  | JBool bool
  | JNumber real
  | JString string
  | JArray "json list"
  | JObject "(string \<times> json) list"

datatype js_error = TypeError | SyntaxError

text \<open>\<open>message.type\<close>: reading a property of \<open>null\<close> throws, an object yields the value
  of its last \<open>type\<close> member, every other value has no such property.\<close>

fun message_type :: "json \<Rightarrow> js_error + json option" where
  "message_type JNull = Inl TypeError"
| "message_type (JObject members) = Inr (map_of (rev members) ''type'')"
| "message_type (JBool b) = Inr None"
| "message_type (JNumber n) = Inr None"
| "message_type (JString t) = Inr None"
| "message_type (JArray xs) = Inr None"

text \<open>The inner \<open>try\<close> block of the message callback: true when the heartbeat branch is
  taken; a parse error or a type error is caught and the frame is processed as data.\<close>

definition is_heartbeat :: "(string \<Rightarrow> json option) \<Rightarrow> string \<Rightarrow> bool" where
  "is_heartbeat JSON_parse t =
     (case JSON_parse t of
        None \<Rightarrow> False
      | Some message \<Rightarrow>
          (case message_type message of
             Inl e \<Rightarrow> False
           | Inr v \<Rightarrow> v = Some (JString ''heartbeat'')))"

definition heartbeat :: "string \<Rightarrow> int \<Rightarrow> service \<Rightarrow> service" where
  "heartbeat clientId now s =
     (case clients_get s clientId of
        None \<Rightarrow> s
      | Some (a, client) \<Rightarrow> store a (client\<lparr>lastPing := now, isAlive := True\<rparr>) s)"

definition forward :: "string \<Rightarrow> buffer \<Rightarrow> service \<Rightarrow> service" where
  "forward clientId videoBuffer s =
     (if length videoBuffer > 0 then sendToFFmpeg clientId videoBuffer s else s)"

text \<open>\<open>ws.on("message", ...)\<close>. Nothing in the outer \<open>try\<close> block throws in this model, so
  its \<open>catch\<close> branch (an error frame to the client) is never taken.\<close>

definition on_message ::
  "(string \<Rightarrow> json option) \<Rightarrow> string \<Rightarrow> int \<Rightarrow> ws_data \<Rightarrow> service \<Rightarrow> service" where
  "on_message JSON_parse clientId now data s =
     (case data of
        Str t \<Rightarrow>
          if is_heartbeat JSON_parse t then heartbeat clientId now s
          else forward clientId (to_buffer data) s
      | Buf b \<Rightarrow> forward clientId (to_buffer data) s)"

text \<open>\<open>ws.on("pong", ...)\<close>.\<close>

definition on_pong :: "string \<Rightarrow> int \<Rightarrow> service \<Rightarrow> service" where
  "on_pong clientId now s =
     (case clients_get s clientId of
        None \<Rightarrow> s
      | Some (a, client) \<Rightarrow> store a (client\<lparr>isAlive := True, lastPing := now\<rparr>) s)"

text \<open>\<open>ws.on("close", ...)\<close> and \<open>ws.on("error", ...)\<close>, for the socket of the client
  object at \<open>a\<close>. The library sets the socket to \<open>CLOSED\<close> before it emits \<open>close\<close>; before
  it emits \<open>error\<close> it closes the socket, which leaves it \<open>CLOSING\<close> unless it was closed
  already.\<close>

definition mark_closed :: "nat \<Rightarrow> service \<Rightarrow> service" where
  "mark_closed a s =
     (case deref s a of
        None \<Rightarrow> s
      | Some client \<Rightarrow> store a (client\<lparr>ws := (ws client)\<lparr>readyState := CLOSED\<rparr>\<rparr>) s)"

definition mark_closing :: "nat \<Rightarrow> service \<Rightarrow> service" where
  "mark_closing a s =
     (case deref s a of
        None \<Rightarrow> s
      | Some client \<Rightarrow> store a (client\<lparr>ws := ws_close (ws client)\<rparr>) s)"

definition on_close :: "nat \<Rightarrow> string \<Rightarrow> service \<Rightarrow> service" where
  "on_close a clientId s = cleanupClient clientId (mark_closed a s)"

definition on_error :: "nat \<Rightarrow> string \<Rightarrow> service \<Rightarrow> service" where
  "on_error a clientId s = cleanupClient clientId (mark_closing a s)"

subsection \<open>Frames on the wire\<close>

text \<open>What a client sends: a text frame (its payload kept as UTF-8 bytes, one \<open>char\<close>
  each) or a binary frame. How the \<open>ws\<close> library hands a text frame to the message
  callback depends on its version, which the sources do not fix: up to version 7 as a
  string, from version 8 on as a \<open>Buffer\<close>, like a binary frame. (The \<open>close\<close>
  callback's \<open>reason: Buffer\<close> parameter is the signature of version 8.)\<close>

datatype frame = TextFrame string | BinaryFrame buffer

fun payload :: "frame \<Rightarrow> buffer" where
  "payload (TextFrame t) = map of_char t"
| "payload (BinaryFrame b) = b"

datatype delivery = TextAsString | TextAsBuffer

fun deliver :: "delivery \<Rightarrow> frame \<Rightarrow> ws_data" where
  "deliver TextAsString (TextFrame t) = Str t"
| "deliver TextAsBuffer (TextFrame t) = Buf (map of_char t)"
| "deliver dm (BinaryFrame b) = Buf b"

text \<open>The spec's heartbeat control message: a JSON object whose \<open>type\<close> is the string
  \<open>heartbeat\<close>, and the frames that carry one. These two definitions follow the spec's
  words, not the callback's test \<open>is_heartbeat\<close>.\<close>

definition heartbeat_message :: "json \<Rightarrow> bool" where
  "heartbeat_message m =
     (case m of
        JObject members \<Rightarrow> map_of (rev members) ''type'' = Some (JString ''heartbeat'')
      | JNull \<Rightarrow> False | JBool b \<Rightarrow> False | JNumber n \<Rightarrow> False | JString t \<Rightarrow> False
      | JArray xs \<Rightarrow> False)"

definition heartbeat_control_frame :: "(string \<Rightarrow> json option) \<Rightarrow> frame \<Rightarrow> bool" where
  "heartbeat_control_frame JSON_parse fr =
     (case fr of
        TextFrame t \<Rightarrow> (case JSON_parse t of None \<Rightarrow> False | Some m \<Rightarrow> heartbeat_message m)
      | BinaryFrame b \<Rightarrow> False)"

subsection \<open>FFmpeg callbacks\<close>

text \<open>The callbacks registered in \<open>createFFmpegProcess\<close> hold the client object itself
  (address \<open>a\<close>), not its id.\<close>

definition ffmpeg_stdout_data :: "nat \<Rightarrow> buffer \<Rightarrow> service \<Rightarrow> service" where
  "ffmpeg_stdout_data a chunk s =
     (case deref s a of
        None \<Rightarrow> s
      | Some client \<Rightarrow>
          if readyState (ws client) = OPEN \<and> length chunk > 0
          then store a (client\<lparr>ws := ws_send (BinaryOut chunk) (ws client)\<rparr>) s
          else s)"

definition ffmpeg_on_error :: "string \<Rightarrow> service \<Rightarrow> service" where
  "ffmpeg_on_error clientId s =
     sendToClient clientId (ErrorMsg ''FFmpeg process error occurred'') s"

definition ffmpeg_on_exit :: "nat \<Rightarrow> service \<Rightarrow> service" where
  "ffmpeg_on_exit a s =
     (case deref s a of
        None \<Rightarrow> s
      | Some client \<Rightarrow> store a (client\<lparr>ffmpegProcess := None\<rparr>) s)"

text \<open>A binary that cannot be launched without \<open>spawn\<close> throwing: Node returns a
  \<open>ChildProcess\<close>, then marks it gone and emits \<open>error\<close> on it (and no \<open>exit\<close>).\<close>

definition launch_failed :: "nat \<Rightarrow> string \<Rightarrow> service \<Rightarrow> service" where
  "launch_failed a clientId s =
     ffmpeg_on_error clientId
       (case deref s a of
          None \<Rightarrow> s
        | Some client \<Rightarrow>
            (case ffmpegProcess client of
               None \<Rightarrow> s
             | Some p \<Rightarrow> store a (client\<lparr>ffmpegProcess := Some (process_gone p)\<rparr>) s))"

subsection \<open>Connection setup\<close>

text \<open>\<open>uuidv4()\<close> belongs to the \<open>uuid\<close> package, which is not among the sources. It
  is modelled from the package's contract, an RFC 4122 version 4 identifier: 16 random
  bytes, of which byte 6 gets the version and byte 8 the variant bits, written as 32
  lower-case hexadecimal digits in groups of 8, 4, 4, 4 and 12. The random bytes are an
  input.\<close>

unbundle bit_operations_syntax

definition byteToHex :: "8 word \<Rightarrow> string" where
  "byteToHex b = [''0123456789abcdef'' ! (unat b div 16), ''0123456789abcdef'' ! (unat b mod 16)]"

definition hex_of :: "buffer \<Rightarrow> string" where
  "hex_of bs = concat (map byteToHex bs)"

definition unsafeStringify :: "buffer \<Rightarrow> string" where
  "unsafeStringify arr =
     hex_of (take 4 arr) @ ''-'' @ hex_of (take 2 (drop 4 arr)) @ ''-''
     @ hex_of (take 2 (drop 6 arr)) @ ''-'' @ hex_of (take 2 (drop 8 arr)) @ ''-''
     @ hex_of (take 6 (drop 10 arr))"

definition set_version_bits :: "buffer \<Rightarrow> buffer" where
  "set_version_bits rnds =
     (rnds[6 := (rnds ! 6 AND 0x0f) OR 0x40])[8 := (rnds ! 8 AND 0x3f) OR 0x80]"

definition uuidv4 :: "buffer \<Rightarrow> string" where
  "uuidv4 rnds = unsafeStringify (set_version_bits rnds)"

text \<open>The \<open>connection\<close> callback of \<open>setupWebSocketServer\<close> after its first statement, for
  the id that \<open>uuidv4()\<close> returned. The socket, the clock and the outcome of \<open>spawn\<close> are
  inputs. The new client object is allocated at the next free address.\<close>

definition on_connection ::
  "websocket \<Rightarrow> string \<Rightarrow> int \<Rightarrow> spawn_error + child_process \<Rightarrow> service \<Rightarrow> service" where
  "on_connection socket clientId now spawned s =
     (let client = \<lparr>client_id = clientId, ws = socket, isAlive = True, lastPing = now,
                     ffmpegProcess = None\<rparr>;
          a = length (heap s);
          s1 = clients_set clientId a (s\<lparr>heap := heap s @ [client]\<rparr>);
          s2 = createFFmpegProcess clientId spawned s1
      in sendToClient clientId
           (ConnectionMsg ''Connected to Black & White Video Processing Server'' clientId) s2)"

text \<open>The whole callback: \<open>const clientId = uuidv4()\<close>, then the rest.\<close>

definition accept_connection ::
  "websocket \<Rightarrow> buffer \<Rightarrow> int \<Rightarrow> spawn_error + child_process \<Rightarrow> service \<Rightarrow> service" where
  "accept_connection socket rnds now spawned s =
     (let clientId = uuidv4 rnds in on_connection socket clientId now spawned s)"

subsection \<open>The liveness monitor\<close>

text \<open>One iteration of the \<open>forEach\<close> in \<open>startPingInterval\<close>. The \<open>catch\<close> around
  \<open>ws.ping()\<close> is not reached: the socket was tested to be \<open>OPEN\<close>.\<close>

definition ping_client :: "int \<Rightarrow> string \<times> nat \<Rightarrow> service \<Rightarrow> service" where
  "ping_client now entry s =
     (case entry of (clientId, a) \<Rightarrow>
        (case deref s a of
           None \<Rightarrow> s
         | Some client \<Rightarrow>
             if readyState (ws client) \<noteq> OPEN then clients_delete clientId s
             else if now - lastPing client > PONG_TIMEOUT
             then clients_delete clientId (store a (client\<lparr>ws := ws_terminate (ws client)\<rparr>) s)
             else if \<not> isAlive client
             then clients_delete clientId (store a (client\<lparr>ws := ws_terminate (ws client)\<rparr>) s)
             else store a (client\<lparr>isAlive := False, ws := ws_ping (ws client)\<rparr>) s))"

text \<open>The timer callback: every entry of the registry in insertion order. A callback
  removes at most its own entry, so iterating over the entries present at the start
  visits what \<open>Map.forEach\<close> visits.\<close>

definition ping_tick :: "int \<Rightarrow> service \<Rightarrow> service" where
  "ping_tick now s = fold (ping_client now) (clients s) s"

subsection \<open>Public operations\<close>

definition getConnectedClients :: "service \<Rightarrow> nat" where
  "getConnectedClients s = length (clients s)"

definition disconnectClient :: "string \<Rightarrow> service \<Rightarrow> bool \<times> service" where
  "disconnectClient clientId s =
     (case clients_get s clientId of
        Some (a, client) \<Rightarrow>
          (True, clients_delete clientId (store a (client\<lparr>ws := ws_close (ws client)\<rparr>) s))
      | None \<Rightarrow> (False, s))"

definition close_client :: "string \<times> nat \<Rightarrow> service \<Rightarrow> service" where
  "close_client entry s =
     (case entry of (clientId, a) \<Rightarrow>
        (let s1 = cleanupClient clientId s
         in case deref s1 a of
              None \<Rightarrow> s1
            | Some client \<Rightarrow>
                if readyState (ws client) = OPEN
                then store a (client\<lparr>ws := ws_close (ws client)\<rparr>) s1
                else s1))"

definition close :: "service \<Rightarrow> service" where
  "close s =
     (fold close_client (clients s) (s\<lparr>pingInterval := False\<rparr>))\<lparr>wss_listening := False\<rparr>"

subsection \<open>Graceful shutdown (src/index.ts)\<close>

record http_server =
  listening :: bool

text \<open>The part of \<open>BakCamerasServer\<close> that \<open>gracefulShutdown\<close> touches: the socket service,
  the HTTP server, the callback given to \<open>server.close\<close>, the forced-exit timer (its delay
  in milliseconds) and the exit code once \<open>process.exit\<close> ran.\<close>

record app =
  wsService :: "service option"
  server :: "http_server option"
  exit_when_closed :: bool
  forced_exit_timer :: "nat option"
  exit_code :: "int option"

definition process_exit :: "int \<Rightarrow> app \<Rightarrow> app" where
  "process_exit code ap = (case exit_code ap of None \<Rightarrow> ap\<lparr>exit_code := Some code\<rparr> | Some c \<Rightarrow> ap)"

definition gracefulShutdown :: "app \<Rightarrow> app" where
  "gracefulShutdown ap =
     (let ap1 = (case wsService ap of
                   None \<Rightarrow> ap
                 | Some w \<Rightarrow> ap\<lparr>wsService := Some (close w)\<rparr>)
      in case server ap1 of
           None \<Rightarrow> ap1
         | Some srv \<Rightarrow>
             ap1\<lparr>server := Some (srv\<lparr>listening := False\<rparr>),
                 exit_when_closed := True,
                 forced_exit_timer := Some 10000\<rparr>)"

text \<open>The callback of \<open>server.close\<close> and the callback of the ten second timer.\<close>

definition server_closed :: "app \<Rightarrow> app" where
  "server_closed ap = (if exit_when_closed ap then process_exit 0 ap else ap)"

definition forced_exit :: "app \<Rightarrow> app" where
  "forced_exit ap =
     (case forced_exit_timer ap of None \<Rightarrow> ap | Some d \<Rightarrow> process_exit 1 ap)"

subsection \<open>Event sequences\<close>

text \<open>Everything that can happen to the service after its construction: one event per
  callback or public operation, with the values the runtime supplies.\<close>

datatype event =
    Connect websocket string int "spawn_error + child_process"
  | Message string int ws_data
  | Pong string int
  | SocketClose nat string
  | SocketError nat string
  | FfmpegStdout nat buffer
  | FfmpegError string
  | FfmpegExit nat
  | LaunchFailed nat string
  | PingTick int
  | ForceKill nat
  | Disconnect string
  | Close

fun step :: "(string \<Rightarrow> json option) \<Rightarrow> event \<Rightarrow> service \<Rightarrow> service" where
  "step JSON_parse (Connect socket clientId now spawned) s = on_connection socket clientId now spawned s"
| "step JSON_parse (Message clientId now data) s = on_message JSON_parse clientId now data s"
| "step JSON_parse (Pong clientId now) s = on_pong clientId now s"
| "step JSON_parse (SocketClose a clientId) s = on_close a clientId s"
| "step JSON_parse (SocketError a clientId) s = on_error a clientId s"
| "step JSON_parse (FfmpegStdout a chunk) s = ffmpeg_stdout_data a chunk s"
| "step JSON_parse (FfmpegError clientId) s = ffmpeg_on_error clientId s"
| "step JSON_parse (FfmpegExit a) s = ffmpeg_on_exit a s"
| "step JSON_parse (LaunchFailed a clientId) s = launch_failed a clientId s"
| "step JSON_parse (PingTick now) s = ping_tick now s"
| "step JSON_parse (ForceKill a) s = force_kill a s"
| "step JSON_parse (Disconnect clientId) s = snd (disconnectClient clientId s)"
| "step JSON_parse Close s = close s"

definition run :: "(string \<Rightarrow> json option) \<Rightarrow> event list \<Rightarrow> service \<Rightarrow> service" where
  "run JSON_parse evs s = fold (step JSON_parse) evs s"

subsection \<open>Observations\<close>

text \<open>What the properties below read off a state: the FFmpeg process of the client
  object at an address, the signals delivered to it, the buffers written to its
  \<open>stdin\<close>, the frames sent on the object's socket, and whether a client object can
  take a write.\<close>

definition process_at :: "service \<Rightarrow> nat \<Rightarrow> child_process option" where
  "process_at s a = (case deref s a of None \<Rightarrow> None | Some client \<Rightarrow> ffmpegProcess client)"

definition signals_at :: "service \<Rightarrow> nat \<Rightarrow> signal list" where
  "signals_at s a = (case process_at s a of None \<Rightarrow> [] | Some p \<Rightarrow> signals p)"

definition written_at :: "service \<Rightarrow> nat \<Rightarrow> buffer list" where
  "written_at s a =
     (case process_at s a of
        None \<Rightarrow> []
      | Some p \<Rightarrow> (case stdin p of None \<Rightarrow> [] | Some i \<Rightarrow> written i))"

definition frames_at :: "service \<Rightarrow> nat \<Rightarrow> out_frame list" where
  "frames_at s a = (case deref s a of None \<Rightarrow> [] | Some client \<Rightarrow> sent (ws client))"

definition socket_state_at :: "service \<Rightarrow> nat \<Rightarrow> ready_state option" where
  "socket_state_at s a =
     (case deref s a of None \<Rightarrow> None | Some client \<Rightarrow> Some (readyState (ws client)))"

definition liveness_at :: "service \<Rightarrow> nat \<Rightarrow> (int \<times> bool) option" where
  "liveness_at s a =
     (case deref s a of None \<Rightarrow> None | Some client \<Rightarrow> Some (lastPing client, isAlive client))"

text \<open>Whether the message callback takes its heartbeat branch on a frame.\<close>

definition heartbeat_frame :: "(string \<Rightarrow> json option) \<Rightarrow> ws_data \<Rightarrow> bool" where
  "heartbeat_frame JSON_parse d = (case d of Str t \<Rightarrow> is_heartbeat JSON_parse t | Buf b \<Rightarrow> False)"

definition registered :: "service \<Rightarrow> string \<Rightarrow> bool" where
  "registered s k = (clients_get s k \<noteq> None)"

fun is_connection :: "out_frame \<Rightarrow> bool" where
  "is_connection (JsonText (ConnectionMsg m i)) = True"
| "is_connection (JsonText (ErrorMsg m)) = False"
| "is_connection (BinaryOut b) = False"

fun is_error :: "out_frame \<Rightarrow> bool" where
  "is_error (JsonText (ErrorMsg m)) = True"
| "is_error (JsonText (ConnectionMsg m i)) = False"
| "is_error (BinaryOut b) = False"

definition writable_process :: "child_process \<Rightarrow> bool" where
  "writable_process p =
     (\<not> killed p \<and> (case stdin p of None \<Rightarrow> False | Some i \<Rightarrow> \<not> destroyed i))"

text \<open>The registry is well formed when its keys are distinct, no two keys share a client
  object, and every entry points into the store. The constructor establishes this and
  every event keeps it.\<close>

definition well_formed :: "service \<Rightarrow> bool" where
  "well_formed s =
     (distinct (map fst (clients s)) \<and> distinct (map snd (clients s))
      \<and> list_all (\<lambda>e. snd e < length (heap s)) (clients s))"

subsection \<open>Auxiliary notions\<close>

text \<open>The client object that the connection callback leaves in the store when the
  accepted socket is open.\<close>

definition accepted_client ::
  "websocket \<Rightarrow> string \<Rightarrow> int \<Rightarrow> spawn_error + child_process \<Rightarrow> client_connection" where
  "accepted_client socket k now spawned =
     \<lparr>client_id = k,
      ws = socket\<lparr>sent := sent socket
             @ (case spawned of
                  Inl e \<Rightarrow> [JsonText (ErrorMsg ''Failed to initialize black & white video processing'')]
                | Inr p \<Rightarrow> [])
             @ [JsonText (ConnectionMsg ''Connected to Black & White Video Processing Server'' k)]\<rparr>,
      isAlive = True, lastPing = now,
      ffmpegProcess = (case spawned of Inl e \<Rightarrow> None | Inr p \<Rightarrow> Some p)\<rparr>"

text \<open>How one client object may change over any event: a cleared \<open>ffmpegProcess\<close> field
  stays cleared, and the frames sent on its socket only grow, by frames that are not
  connection frames. \<open>evolves\<close> lifts this to the object at one address of two states.\<close>

definition carries_on :: "client_connection \<Rightarrow> client_connection \<Rightarrow> bool" where
  "carries_on c c' =
     ((ffmpegProcess c = None \<longrightarrow> ffmpegProcess c' = None)
      \<and> (\<exists>more. sent (ws c') = sent (ws c) @ more \<and> filter is_connection more = []))"

definition evolves :: "nat \<Rightarrow> service \<Rightarrow> service \<Rightarrow> bool" where
  "evolves a s s' = (\<forall>c. deref s a = Some c \<longrightarrow> (\<exists>c'. deref s' a = Some c' \<and> carries_on c c'))"

text \<open>What \<open>close\<close> does to the client object of one registry entry: \<open>cleanupClient\<close>
  followed by closing the socket if it is open.\<close>

definition shut_down :: "client_connection \<Rightarrow> client_connection" where
  "shut_down c =
     (let c1 = (case ffmpegProcess c of
                  None \<Rightarrow> c
                | Some p \<Rightarrow> if \<not> killed p then c\<lparr>ffmpegProcess := Some (kill SIGTERM p)\<rparr> else c)
      in if readyState (ws c1) = OPEN then c1\<lparr>ws := ws_close (ws c1)\<rparr> else c1)"

text \<open>A step that keeps the store's size and only removes registry entries.\<close>

definition registry_shrinks :: "service \<Rightarrow> service \<Rightarrow> bool" where
  "registry_shrinks s s' =
     (length (heap s') = length (heap s) \<and> (\<exists>P. clients s' = filter P (clients s)))"

text \<open>Whether the monitor's tick at time \<open>now\<close> keeps the client object at \<open>a\<close>: none of
  the three tests of the \<open>forEach\<close> body in \<open>startPingInterval\<close> that end in
  \<open>this.clients.delete\<close> fires on it, so the tick only clears \<open>isAlive\<close> and sends a ping.\<close>

definition tick_keeps :: "int \<Rightarrow> service \<Rightarrow> nat \<Rightarrow> bool" where
  "tick_keeps now s a =
     (case deref s a of
        None \<Rightarrow> False
      | Some client \<Rightarrow>
          readyState (ws client) = OPEN \<and> \<not> now - lastPing client > PONG_TIMEOUT
          \<and> isAlive client)"

text \<open>The events that do not tear down the session registered under \<open>k\<close> with its client
  object at \<open>a\<close>. The ones left out are the triggers of a teardown: the \<open>close\<close> or \<open>error\<close>
  event of the session's own socket, a monitor tick that does not keep the session,
  \<open>disconnectClient\<close> for its id, \<open>close\<close> of the service, and a connection registered
  under the same id. \<open>undisturbed\<close> says it of every event of a sequence, each taken in the
  state the earlier events produced.\<close>

fun leaves_session :: "string \<Rightarrow> nat \<Rightarrow> event \<Rightarrow> service \<Rightarrow> bool" where
  "leaves_session k a (Connect socket k' now spawned) s = (k' \<noteq> k)"
| "leaves_session k a (Message k' now d) s = True"
| "leaves_session k a (Pong k' now) s = True"
| "leaves_session k a (SocketClose a' k') s = (a' \<noteq> a \<and> k' \<noteq> k)"
| "leaves_session k a (SocketError a' k') s = (a' \<noteq> a \<and> k' \<noteq> k)"
| "leaves_session k a (FfmpegStdout a' chunk) s = True"
| "leaves_session k a (FfmpegError k') s = True"
| "leaves_session k a (FfmpegExit a') s = True"
| "leaves_session k a (LaunchFailed a' k') s = True"
| "leaves_session k a (PingTick now) s = tick_keeps now s a"
| "leaves_session k a (ForceKill a') s = True"
| "leaves_session k a (Disconnect k') s = (k' \<noteq> k)"
| "leaves_session k a Close s = False"

fun undisturbed ::
  "(string \<Rightarrow> json option) \<Rightarrow> string \<Rightarrow> nat \<Rightarrow> event list \<Rightarrow> service \<Rightarrow> bool" where
  "undisturbed JSON_parse k a [] s = True"
| "undisturbed JSON_parse k a (e # evs) s =
     (leaves_session k a e s \<and> undisturbed JSON_parse k a evs (step JSON_parse e s))"

text \<open>Between two states, the registry entry of \<open>k\<close> and the state of the socket of the
  client object at \<open>a\<close> are the same.\<close>

definition session_kept :: "string \<Rightarrow> nat \<Rightarrow> service \<Rightarrow> service \<Rightarrow> bool" where
  "session_kept k a s s' =
     (map_of (clients s') k = map_of (clients s) k
      \<and> socket_state_at s' a = socket_state_at s a)"

subsection \<open>Concrete inputs\<close>

definition open_socket :: websocket where
  "open_socket = \<lparr>readyState = OPEN, sent = [], pings = 0, terminated = False\<rparr>"

definition live_process :: child_process where
  "live_process =
     \<lparr>killed = False, running = True, signals = [],
      stdin = Some \<lparr>destroyed = False, written = []\<rparr>\<rparr>"

text \<open>A parser that knows one text: enough to run the message handler on the heartbeat
  message.\<close>

definition heartbeat_text :: string where
  \<open>heartbeat_text = ''{"type":"heartbeat"}''\<close>

definition parse_heartbeat_only :: "string \<Rightarrow> json option" where
  "parse_heartbeat_only t =
     (if t = heartbeat_text then Some (JObject [(''type'', JString ''heartbeat'')]) else None)"

text \<open>A parser that knows two texts: the heartbeat message and the message the test
  client sends.\<close>

definition test_text :: string where
  \<open>test_text = ''{"type":"test","message":"Hello from test client"}''\<close>

definition parse_control_messages :: "string \<Rightarrow> json option" where
  "parse_control_messages t =
     (if t = heartbeat_text then Some (JObject [(''type'', JString ''heartbeat'')])
      else if t = test_text
      then Some (JObject [(''type'', JString ''test''),
                          (''message'', JString ''Hello from test client'')])
      else None)"

text \<open>Two draws of 16 random bytes.\<close>

definition entropy_a :: buffer where
  "entropy_a = [0, 1, 2, 3, 4, 5, 6, 7, 8, 9, 10, 11, 12, 13, 14, 255]"

definition entropy_b :: buffer where
  "entropy_b = [16, 32, 48, 64, 80, 96, 112, 128, 144, 160, 176, 192, 208, 224, 240, 1]"

text \<open>One session \<open>c1\<close>, accepted at time \<open>t\<close> with a running FFmpeg process.\<close>

definition one_session :: "int \<Rightarrow> service" where
  "one_session t = on_connection open_socket ''c1'' t (Inr live_process) initial_service"

text \<open>Three sessions with running FFmpeg processes, and the application that serves
  them.\<close>

definition three_sessions :: service where
  "three_sessions =
     on_connection open_socket ''c3'' 2 (Inr live_process)
       (on_connection open_socket ''c2'' 1 (Inr live_process) (one_session 0))"

definition running_app :: app where
  "running_app =
     \<lparr>wsService = Some three_sessions, server = Some \<lparr>listening = True\<rparr>,
      exit_when_closed = False, forced_exit_timer = None, exit_code = None\<rparr>"

text \<open>A service that has lost a session to the monitor: \<open>c1\<close> is accepted at time 0 and
  \<open>c2\<close> at 30000, the tick at 30001 finds \<open>c1\<close> timed out, and the socket of \<open>c1\<close> then
  reports its close. The second definition is the application that serves it.\<close>

definition session_lost_by_monitor :: service where
  "session_lost_by_monitor =
     run parse_heartbeat_only
       [Connect open_socket ''c1'' 0 (Inr live_process),
        Connect open_socket ''c2'' 30000 (Inr live_process),
        PingTick 30001,
        SocketClose 0 ''c1'']
       initial_service"

definition app_with_lost_session :: app where
  "app_with_lost_session =
     \<lparr>wsService = Some session_lost_by_monitor, server = Some \<lparr>listening = True\<rparr>,
      exit_when_closed = False, forced_exit_timer = None, exit_code = None\<rparr>"

text \<open>Events in the life of the session \<open>c1\<close> of \<open>one_session 50000\<close>, with the monitor's
  ticks \<open>PING_INTERVAL\<close> apart: a binary frame, a second connection, the tick at 60000, the
  pong of \<open>c1\<close>, a chunk of FFmpeg output, a heartbeat message at 100000, and the tick at
  120000.\<close>

definition degraded_events :: "event list" where
  "degraded_events =
     [Message ''c1'' 50005 (Buf [1]),
      Connect open_socket ''c2'' 55000 (Inr live_process),
      PingTick 60000,
      Pong ''c1'' 60005,
      FfmpegStdout 0 [3],
      Message ''c1'' 100000 (Str heartbeat_text),
      PingTick 120000]"

section \<open>Basic facts\<close>

subsection \<open>Store and registry lemmas\<close>

lemma deref_store: "deref (store a c s) b = (if b = a \<and> a < length (heap s) then Some c else deref s b)"
  by (simp add: deref_def store_def)

lemma clients_store: "clients (store a c s) = clients s"
  by (simp add: store_def)

lemma timeouts_store: "timeouts (store a c s) = timeouts s"
  by (simp add: store_def)

lemma length_heap_store: "length (heap (store a c s)) = length (heap s)"
  by (simp add: store_def)

lemma deref_clients_delete: "deref (clients_delete k s) a = deref s a"
  by (simp add: deref_def clients_delete_def)

lemma deref_timeouts: "deref (s\<lparr>timeouts := t\<rparr>) a = deref s a"
  by (simp add: deref_def)

lemma clients_get_SomeD:
  "clients_get s k = Some (a, c) \<Longrightarrow> map_of (clients s) k = Some a \<and> deref s a = Some c"
  by (auto simp add: clients_get_def split: option.splits)

lemma deref_SomeD: "deref s a = Some c \<Longrightarrow> a < length (heap s) \<and> heap s ! a = c"
  by (simp add: deref_def split: if_splits)

lemma clients_get_deleted: "clients_get (clients_delete k s) k = None"
  by (simp add: clients_get_def clients_delete_def AList.delete_conv')

lemma clients_get_store:
  "clients_get (store a c s) k =
     (case clients_get s k of None \<Rightarrow> None | Some (b, d) \<Rightarrow> Some (b, if b = a then c else d))"
  by (auto simp add: clients_get_def store_def deref_def split: option.splits)

lemma cleanupClient_unregisters: "clients_get (cleanupClient k s) k = None"
  by (simp add: cleanupClient_def clients_get_deleted split: option.splits prod.splits)

lemma cleanupClient_absent: "clients_get s k = None \<Longrightarrow> cleanupClient k s = s"
  by (simp add: cleanupClient_def)

lemma cleanupClient_signals:
  "signals_at (cleanupClient k s) a = signals_at s a
   \<or> signals_at (cleanupClient k s) a = signals_at s a @ [SIGTERM]"
proof (cases "clients_get s k")
  case None
  then show ?thesis by (simp add: cleanupClient_def)
next
  case (Some e)
  obtain b c where e: "e = (b, c)" by (cases e)
  from Some e have d: "deref s b = Some c" by (simp add: clients_get_SomeD)
  then have lt: "b < length (heap s)" by (simp add: deref_SomeD)
  show ?thesis using Some e d lt
    by (cases "a = b")
       (auto simp add: cleanupClient_def signals_at_def process_at_def deref_clients_delete
          deref_store deref_timeouts kill_def split: option.splits)
qed

lemma one_session_eval:
  "one_session t =
     \<lparr>heap = [\<lparr>client_id = ''c1'',
               ws = \<lparr>readyState = OPEN,
                     sent = [JsonText (ConnectionMsg ''Connected to Black & White Video Processing Server'' ''c1'')],
                     pings = 0, terminated = False\<rparr>,
               isAlive = True, lastPing = t, ffmpegProcess = Some live_process\<rparr>],
      clients = [(''c1'', 0)], pingInterval = True, wss_listening = True, timeouts = []\<rparr>"
  by (simp add: one_session_def on_connection_def initial_service_def clients_set_def
      createFFmpegProcess_def clients_get_def deref_def store_def sendToClient_def ws_send_def
      open_socket_def Let_def)

subsection \<open>disconnectClient\<close>

lemma disconnectClient_processes:
  "process_at (snd (disconnectClient k s)) a = process_at s a"
proof (cases "clients_get s k")
  case None
  then show ?thesis by (simp add: disconnectClient_def)
next
  case (Some e)
  obtain b c where e: "e = (b, c)" by (cases e)
  from Some e have "deref s b = Some c" by (simp add: clients_get_SomeD)
  with Some e show ?thesis
    by (simp add: disconnectClient_def process_at_def deref_clients_delete deref_store)
qed

subsection \<open>Frames in both directions\<close>

lemma sendToFFmpeg_writes:
  assumes "clients_get s k = Some (a, c)" and "ffmpegProcess c = Some p" and "writable_process p"
  shows "\<exists>c' p'. clients_get (sendToFFmpeg k b s) k = Some (a, c') \<and> ffmpegProcess c' = Some p'
           \<and> writable_process p' \<and> written_at (sendToFFmpeg k b s) a = written_at s a @ [b]"
proof -
  from assms(1) have d: "deref s a = Some c" by (simp add: clients_get_SomeD)
  from assms(3) obtain i where i: "stdin p = Some i" "\<not> destroyed i" "\<not> killed p"
    by (auto simp add: writable_process_def split: option.splits)
  from d have lt: "a < length (heap s)" by (simp add: deref_SomeD)
  show ?thesis
    using assms(1,2) d i lt
    by (simp add: sendToFFmpeg_def clients_get_store written_at_def process_at_def deref_store
        writable_process_def)
qed

lemma sendToFFmpeg_drops:
  assumes "clients_get s k = Some (a, c)"
    and "\<not> (case ffmpegProcess c of None \<Rightarrow> False | Some p \<Rightarrow> writable_process p)"
  shows "sendToFFmpeg k b s = s"
  using assms
  by (auto simp add: sendToFFmpeg_def writable_process_def split: option.splits)

lemma forward_writes:
  assumes "clients_get s k = Some (a, c)" and "ffmpegProcess c = Some p" and "writable_process p"
  shows "\<exists>c' p'. clients_get (forward k b s) k = Some (a, c') \<and> ffmpegProcess c' = Some p'
           \<and> writable_process p'
           \<and> written_at (forward k b s) a = written_at s a @ (if b = [] then [] else [b])"
proof (cases "b = []")
  case True
  with assms show ?thesis by (simp add: forward_def)
next
  case False
  with sendToFFmpeg_writes [OF assms, of b] show ?thesis by (simp add: forward_def)
qed

lemma binary_frames_written:
  assumes "clients_get s k = Some (a, c)" and "ffmpegProcess c = Some p" and "writable_process p"
  shows "written_at (fold (\<lambda>(t, b). on_message JSON_parse k t (Buf b)) tbs s) a
           = written_at s a @ filter (\<lambda>b. b \<noteq> []) (map snd tbs)"
  using assms
proof (induction tbs arbitrary: s c p)
  case Nil
  then show ?case by simp
next
  case (Cons tb tbs)
  obtain t b where tb: "tb = (t, b)" by (cases tb)
  from forward_writes [OF Cons.prems, of b]
  obtain c' p' where st: "clients_get (forward k b s) k = Some (a, c')" "ffmpegProcess c' = Some p'"
      "writable_process p'"
      "written_at (forward k b s) a = written_at s a @ (if b = [] then [] else [b])"
    by blast
  have step: "fold (\<lambda>(t, b). on_message JSON_parse k t (Buf b)) (tb # tbs) s
                = fold (\<lambda>(t, b). on_message JSON_parse k t (Buf b)) tbs (forward k b s)"
    by (simp add: tb on_message_def)
  have "written_at (fold (\<lambda>(t, b). on_message JSON_parse k t (Buf b)) tbs (forward k b s)) a
          = written_at (forward k b s) a @ filter (\<lambda>b. b \<noteq> []) (map snd tbs)"
    by (rule Cons.IH [OF st(1,2,3)])
  with st(4) have "written_at (fold (\<lambda>(t, b). on_message JSON_parse k t (Buf b)) tbs (forward k b s)) a
          = written_at s a @ filter (\<lambda>b. b \<noteq> []) (map snd (tb # tbs))"
    by (cases "b = []") (simp_all add: tb)
  then show ?case by (simp only: step)
qed

lemma stdout_chunk_sent:
  assumes "socket_state_at s a = Some OPEN"
  shows "socket_state_at (ffmpeg_stdout_data a chunk s) a = Some OPEN
         \<and> frames_at (ffmpeg_stdout_data a chunk s) a
             = frames_at s a @ (if chunk = [] then [] else [BinaryOut chunk])"
proof -
  from assms obtain c where c: "deref s a = Some c" "readyState (ws c) = OPEN"
    by (auto simp add: socket_state_at_def split: option.splits)
  then have "a < length (heap s)" by (simp add: deref_SomeD)
  with c show ?thesis
    by (simp add: ffmpeg_stdout_data_def socket_state_at_def frames_at_def deref_store ws_send_def)
qed

lemma stdout_chunks_sent:
  assumes "socket_state_at s a = Some OPEN"
  shows "frames_at (fold (ffmpeg_stdout_data a) chunks s) a
           = frames_at s a @ map BinaryOut (filter (\<lambda>b. b \<noteq> []) chunks)"
  using assms
proof (induction chunks arbitrary: s)
  case Nil
  then show ?case by simp
next
  case (Cons chunk chunks)
  from stdout_chunk_sent [OF Cons.prems, of chunk]
  have st: "socket_state_at (ffmpeg_stdout_data a chunk s) a = Some OPEN"
    and fr: "frames_at (ffmpeg_stdout_data a chunk s) a
               = frames_at s a @ (if chunk = [] then [] else [BinaryOut chunk])"
    by simp_all
  from Cons.IH [OF st] fr show ?case by simp
qed

lemma concat_nonempty: "concat (filter (\<lambda>b. b \<noteq> []) bs) = concat bs"
  by (induction bs) simp_all

lemma one_session_get:
  "clients_get (one_session t) ''c1'' = Some (0, heap (one_session t) ! 0)"
  by (simp add: one_session_eval clients_get_def deref_def)

lemma one_session_client:
  "ffmpegProcess (heap (one_session t) ! 0) = Some live_process
   \<and> readyState (ws (heap (one_session t) ! 0)) = OPEN"
  by (simp add: one_session_eval)

lemma live_process_writable: "writable_process live_process"
  by (simp add: writable_process_def live_process_def)

lemma one_session_observed:
  "written_at (one_session t) 0 = []
   \<and> frames_at (one_session t) 0
       = [JsonText (ConnectionMsg ''Connected to Black & White Video Processing Server'' ''c1'')]"
  by (simp add: one_session_eval written_at_def process_at_def frames_at_def deref_def
      live_process_def)



lemma on_message_data:
  "\<not> heartbeat_frame JSON_parse d \<Longrightarrow> on_message JSON_parse k now d s = forward k (to_buffer d) s"
  by (cases d) (simp_all add: heartbeat_frame_def on_message_def)

lemma is_heartbeat_content:
  "is_heartbeat JSON_parse t
     = (case JSON_parse t of None \<Rightarrow> False | Some m \<Rightarrow> heartbeat_message m)"
proof (cases "JSON_parse t")
  case None
  then show ?thesis by (simp add: is_heartbeat_def)
next
  case (Some m)
  then show ?thesis by (cases m) (simp_all add: is_heartbeat_def heartbeat_message_def)
qed

lemma heartbeat_frame_string:
  "heartbeat_frame JSON_parse (deliver TextAsString fr) = heartbeat_control_frame JSON_parse fr"
  by (cases fr) (simp_all add: heartbeat_frame_def heartbeat_control_frame_def is_heartbeat_content)

lemma other_frame_is_data:
  assumes "\<not> heartbeat_control_frame JSON_parse fr"
  shows "\<not> heartbeat_frame JSON_parse (deliver dm fr) \<and> to_buffer (deliver dm fr) = payload fr"
proof (cases dm)
  case TextAsString
  with assms show ?thesis
    by (cases fr) (simp_all add: heartbeat_frame_string [symmetric] heartbeat_frame_def)
next
  case TextAsBuffer
  then show ?thesis by (cases fr) (simp_all add: heartbeat_frame_def)
qed


lemma parse_heartbeat_text:
  "parse_heartbeat_only heartbeat_text = Some (JObject [(''type'', JString ''heartbeat'')])"
  by (simp add: parse_heartbeat_only_def)

subsection \<open>The connection callback\<close>

lemma on_connection_state:
  assumes "readyState socket = OPEN"
  shows "on_connection socket k now spawned s =
           s\<lparr>heap := heap s @ [accepted_client socket k now spawned],
             clients := AList.update k (length (heap s)) (clients s)\<rparr>"
  using assms
  by (cases spawned)
     (simp_all add: on_connection_def Let_def clients_set_def createFFmpegProcess_def
        sendToClient_def clients_get_def deref_def store_def AList.update_conv' ws_send_def
        accepted_client_def)


lemma accepted_deref:
  assumes "readyState socket = OPEN"
  shows "deref (on_connection socket k now spawned s) (length (heap s))
           = Some (accepted_client socket k now spawned)"
  by (simp add: on_connection_state [OF assms] deref_def)

lemma one_session_deref: "deref (one_session t) 0 = Some (heap (one_session t) ! 0)"
  by (simp add: one_session_eval deref_def)

subsection \<open>What no event undoes\<close>

lemma carries_on_refl: "carries_on c c"
  by (simp add: carries_on_def)

lemma carries_on_trans: "carries_on c c' \<Longrightarrow> carries_on c' c'' \<Longrightarrow> carries_on c c''"
  by (auto simp add: carries_on_def)

lemma evolves_same: "deref s' a = deref s a \<Longrightarrow> evolves a s s'"
  by (simp add: evolves_def carries_on_refl)

lemma evolves_refl: "evolves a s s"
  by (simp add: evolves_same)

lemma evolves_trans: "evolves a s s' \<Longrightarrow> evolves a s' s'' \<Longrightarrow> evolves a s s''"
  unfolding evolves_def by (meson carries_on_trans)

lemma evolves_store:
  assumes "deref s b = Some c" and "carries_on c c'"
  shows "evolves a s (store b c' s)"
proof -
  from assms(1) have "b < length (heap s)" by (simp add: deref_SomeD)
  with assms show ?thesis
    by (auto simp add: evolves_def deref_store carries_on_refl)
qed

lemma evolves_clients_delete: "evolves a s (clients_delete k s)"
  by (simp add: evolves_same deref_clients_delete)

lemma evolves_timeouts: "evolves a s (s\<lparr>timeouts := t\<rparr>)"
  by (simp add: evolves_same deref_timeouts)

lemma evolves_fold:
  assumes "\<And>x s. evolves a s (f x s)"
  shows "evolves a s (fold f xs s)"
proof (induction xs arbitrary: s)
  case Nil
  show ?case by (simp add: evolves_refl)
next
  case (Cons x xs)
  have "evolves a s (f x s)" by (rule assms)
  moreover have "evolves a (f x s) (fold f xs (f x s))" by (rule Cons.IH)
  ultimately show ?case by (simp add: evolves_trans)
qed

lemma carries_on_send:
  "\<not> is_connection f \<Longrightarrow> carries_on c (c\<lparr>ws := ws_send f (ws c)\<rparr>)"
  by (simp add: carries_on_def ws_send_def)

lemma carries_on_socket:
  "sent w = sent (ws c) \<Longrightarrow> carries_on c (c\<lparr>ws := w\<rparr>)"
  by (simp add: carries_on_def)

lemma carries_on_process:
  "ffmpegProcess c = Some p \<Longrightarrow> carries_on c (c\<lparr>ffmpegProcess := q\<rparr>)"
  by (simp add: carries_on_def)

lemma carries_on_exit: "carries_on c (c\<lparr>ffmpegProcess := None\<rparr>)"
  by (simp add: carries_on_def)

lemma carries_on_liveness: "carries_on c (c\<lparr>lastPing := t, isAlive := b\<rparr>)"
  by (simp add: carries_on_def)

lemma evolves_sendToClient_error: "evolves a s (sendToClient k (ErrorMsg m) s)"
proof (cases "clients_get s k")
  case None
  then show ?thesis by (simp add: sendToClient_def evolves_refl)
next
  case (Some e)
  obtain b c where e: "e = (b, c)" by (cases e)
  from Some e have d: "deref s b = Some c" by (simp add: clients_get_SomeD)
  show ?thesis
    using Some e
    by (simp add: sendToClient_def evolves_refl evolves_store [OF d] carries_on_send)
qed

lemma evolves_sendToFFmpeg: "evolves a s (sendToFFmpeg k b s)"
proof (cases "clients_get s k")
  case None
  then show ?thesis by (simp add: sendToFFmpeg_def evolves_refl)
next
  case (Some e)
  obtain b' c where e: "e = (b', c)" by (cases e)
  from Some e have d: "deref s b' = Some c" by (simp add: clients_get_SomeD)
  show ?thesis
    using Some e
    by (auto simp add: sendToFFmpeg_def evolves_refl evolves_store [OF d] carries_on_process
        split: option.splits)
qed

lemma evolves_cleanupClient: "evolves a s (cleanupClient k s)"
proof (cases "clients_get s k")
  case None
  then show ?thesis by (simp add: cleanupClient_def evolves_refl)
next
  case (Some e)
  obtain b c where e: "e = (b, c)" by (cases e)
  from Some e have d: "deref s b = Some c" by (simp add: clients_get_SomeD)
  have "evolves a s (case ffmpegProcess c of
               None \<Rightarrow> s
             | Some p \<Rightarrow>
                 if \<not> killed p
                 then (store b (c\<lparr>ffmpegProcess := Some (kill SIGTERM p)\<rparr>) s)
                        \<lparr>timeouts := timeouts s @ [(5000, b)]\<rparr>
                 else s)"
    by (auto simp add: evolves_refl split: option.splits
        intro: evolves_trans [OF evolves_store [OF d] evolves_timeouts] carries_on_process)
  then show ?thesis
    using Some e
    by (simp add: cleanupClient_def) (rule evolves_trans [OF _ evolves_clients_delete])
qed


lemma evolves_force_kill: "evolves a s (force_kill b s)"
proof (cases "deref s b")
  case None
  then show ?thesis by (simp add: force_kill_def evolves_refl)
next
  case (Some c)
  show ?thesis
    using Some
    by (auto simp add: force_kill_def evolves_refl evolves_store [OF Some] carries_on_process
        split: option.splits)
qed

lemma evolves_heartbeat: "evolves a s (heartbeat k now s)"
proof (cases "clients_get s k")
  case None
  then show ?thesis by (simp add: heartbeat_def evolves_refl)
next
  case (Some e)
  obtain b c where e: "e = (b, c)" by (cases e)
  from Some e have d: "deref s b = Some c" by (simp add: clients_get_SomeD)
  show ?thesis
    using Some e by (simp add: heartbeat_def evolves_store [OF d] carries_on_liveness)
qed

lemma evolves_on_pong: "evolves a s (on_pong k now s)"
proof (cases "clients_get s k")
  case None
  then show ?thesis by (simp add: on_pong_def evolves_refl)
next
  case (Some e)
  obtain b c where e: "e = (b, c)" by (cases e)
  from Some e have d: "deref s b = Some c" by (simp add: clients_get_SomeD)
  have "carries_on c (c\<lparr>isAlive := True, lastPing := now\<rparr>)"
    by (simp add: carries_on_def)
  then show ?thesis
    using Some e by (simp add: on_pong_def evolves_store [OF d])
qed

lemma evolves_forward: "evolves a s (forward k b s)"
  by (simp add: forward_def evolves_refl evolves_sendToFFmpeg)

lemma evolves_on_message: "evolves a s (on_message JSON_parse k now d s)"
  by (cases d) (simp_all add: on_message_def evolves_heartbeat evolves_forward)

lemma evolves_mark_closed: "evolves a s (mark_closed b s)"
proof (cases "deref s b")
  case None
  then show ?thesis by (simp add: mark_closed_def evolves_refl)
next
  case (Some c)
  show ?thesis
    using Some by (simp add: mark_closed_def evolves_store [OF Some] carries_on_socket)
qed

lemma evolves_on_close: "evolves a s (on_close b k s)"
  unfolding on_close_def by (rule evolves_trans [OF evolves_mark_closed evolves_cleanupClient])

lemma evolves_mark_closing: "evolves a s (mark_closing b s)"
proof (cases "deref s b")
  case None
  then show ?thesis by (simp add: mark_closing_def evolves_refl)
next
  case (Some c)
  show ?thesis
    using Some
    by (simp add: mark_closing_def evolves_store [OF Some] carries_on_socket ws_close_def)
qed

lemma evolves_on_error: "evolves a s (on_error b k s)"
  unfolding on_error_def by (rule evolves_trans [OF evolves_mark_closing evolves_cleanupClient])

lemma evolves_stdout: "evolves a s (ffmpeg_stdout_data b chunk s)"
proof (cases "deref s b")
  case None
  then show ?thesis by (simp add: ffmpeg_stdout_data_def evolves_refl)
next
  case (Some c)
  show ?thesis
    using Some
    by (simp add: ffmpeg_stdout_data_def evolves_refl evolves_store [OF Some] carries_on_send)
qed

lemma evolves_on_exit: "evolves a s (ffmpeg_on_exit b s)"
proof (cases "deref s b")
  case None
  then show ?thesis by (simp add: ffmpeg_on_exit_def evolves_refl)
next
  case (Some c)
  show ?thesis
    using Some by (simp add: ffmpeg_on_exit_def evolves_store [OF Some] carries_on_exit)
qed

lemma evolves_launch_failed: "evolves a s (launch_failed b k s)"
proof -
  have "evolves a s (case deref s b of
          None \<Rightarrow> s
        | Some client \<Rightarrow>
            (case ffmpegProcess client of
               None \<Rightarrow> s
             | Some p \<Rightarrow> store b (client\<lparr>ffmpegProcess := Some (process_gone p)\<rparr>) s))"
    by (auto simp add: evolves_refl split: option.splits intro: evolves_store carries_on_process)
  then show ?thesis
    unfolding launch_failed_def ffmpeg_on_error_def
    by (rule evolves_trans [OF _ evolves_sendToClient_error])
qed

lemma evolves_ping_client: "evolves a s (ping_client now e s)"
proof -
  obtain k b where e: "e = (k, b)" by (cases e)
  show ?thesis
  proof (cases "deref s b")
    case None
    then show ?thesis by (simp add: e ping_client_def evolves_refl)
  next
    case (Some c)
    have t: "evolves a s (clients_delete k (store b (c\<lparr>ws := ws_terminate (ws c)\<rparr>) s))"
      by (rule evolves_trans [OF evolves_store [OF Some] evolves_clients_delete])
         (simp add: carries_on_socket ws_terminate_def)
    have p: "evolves a s (store b (c\<lparr>isAlive := False, ws := ws_ping (ws c)\<rparr>) s)"
      by (rule evolves_store [OF Some]) (simp add: carries_on_def ws_ping_def)
    show ?thesis
      using Some t p by (simp add: e ping_client_def evolves_clients_delete)
  qed
qed

lemma evolves_ping_tick: "evolves a s (ping_tick now s)"
  unfolding ping_tick_def by (rule evolves_fold) (rule evolves_ping_client)

lemma evolves_disconnectClient: "evolves a s (snd (disconnectClient k s))"
proof (cases "clients_get s k")
  case None
  then show ?thesis by (simp add: disconnectClient_def evolves_refl)
next
  case (Some e)
  obtain b c where e: "e = (b, c)" by (cases e)
  from Some e have d: "deref s b = Some c" by (simp add: clients_get_SomeD)
  have "evolves a s (clients_delete k (store b (c\<lparr>ws := ws_close (ws c)\<rparr>) s))"
    by (rule evolves_trans [OF evolves_store [OF d] evolves_clients_delete])
       (simp add: carries_on_socket ws_close_def)
  then show ?thesis using Some e by (simp add: disconnectClient_def)
qed

lemma evolves_close_client: "evolves a s (close_client e s)"
proof -
  obtain k b where e: "e = (k, b)" by (cases e)
  have "evolves a (cleanupClient k s)
          (case deref (cleanupClient k s) b of
              None \<Rightarrow> cleanupClient k s
            | Some client \<Rightarrow>
                if readyState (ws client) = OPEN
                then store b (client\<lparr>ws := ws_close (ws client)\<rparr>) (cleanupClient k s)
                else cleanupClient k s)"
    by (auto simp add: evolves_refl carries_on_socket ws_close_def split: option.splits
        intro!: evolves_store)
  then show ?thesis
    by (simp add: e close_client_def Let_def evolves_trans [OF evolves_cleanupClient])
qed

lemma evolves_close: "evolves a s (close s)"
proof -
  have 1: "evolves a s (s\<lparr>pingInterval := False\<rparr>)"
    by (simp add: evolves_same deref_def)
  have 2: "evolves a (s\<lparr>pingInterval := False\<rparr>)
             (fold close_client (clients s) (s\<lparr>pingInterval := False\<rparr>))"
    by (rule evolves_fold) (rule evolves_close_client)
  have 3: "evolves a s' (s'\<lparr>wss_listening := False\<rparr>)" for s'
    by (simp add: evolves_same deref_def)
  show ?thesis
    unfolding close_def by (rule evolves_trans [OF evolves_trans [OF 1 2] 3])
qed

lemma on_connection_keeps:
  assumes "a < length (heap s)"
  shows "deref (on_connection socket k now spawned s) a = deref s a"
  using assms
  by (cases spawned)
     (simp_all add: on_connection_def Let_def clients_set_def createFFmpegProcess_def
        sendToClient_def clients_get_def deref_def store_def AList.update_conv' nth_append)

lemma evolves_on_connection: "evolves a s (on_connection socket k now spawned s)"
proof (cases "a < length (heap s)")
  case True
  then show ?thesis by (simp add: evolves_same on_connection_keeps)
next
  case False
  then show ?thesis by (simp add: evolves_def deref_def)
qed

lemma evolves_step: "evolves a s (step JSON_parse e s)"
  by (cases e)
     (simp_all add: evolves_on_connection evolves_on_message evolves_on_pong evolves_on_close
        evolves_on_error evolves_stdout ffmpeg_on_error_def
        evolves_sendToClient_error evolves_on_exit evolves_launch_failed evolves_ping_tick
        evolves_force_kill evolves_disconnectClient evolves_close)

lemma evolves_run: "evolves a s (run JSON_parse evs s)"
  unfolding run_def by (rule evolves_fold) (rule evolves_step)


subsection \<open>A transcoder that cannot be launched\<close>

lemma process_gone_not_writable: "\<not> writable_process (process_gone p)"
  by (simp add: writable_process_def process_gone_def split: option.splits)

lemma launch_failed_state:
  assumes "readyState socket = OPEN"
  shows "launch_failed (length (heap s)) k (on_connection socket k now (Inr p) s) =
           s\<lparr>heap := heap s @
                  [(accepted_client socket k now (Inr p))
                     \<lparr>ffmpegProcess := Some (process_gone p),
                      ws := ws_send (JsonText (ErrorMsg ''FFmpeg process error occurred''))
                              (ws (accepted_client socket k now (Inr p)))\<rparr>],
             clients := AList.update k (length (heap s)) (clients s)\<rparr>"
  using assms
  by (simp add: on_connection_state [OF assms] launch_failed_def ffmpeg_on_error_def
      sendToClient_def clients_get_def deref_def store_def AList.update_conv' accepted_client_def
      ws_send_def)

lemma data_frames_dropped:
  assumes "clients_get s k = Some (a, c)"
    and "\<not> (case ffmpegProcess c of None \<Rightarrow> False | Some q \<Rightarrow> writable_process q)"
  shows "fold (\<lambda>(t, b). on_message JSON_parse k t (Buf b)) tbs s = s"
proof (induction tbs)
  case Nil
  show ?case by simp
next
  case (Cons tb tbs)
  obtain t b where tb: "tb = (t, b)" by (cases tb)
  have "on_message JSON_parse k t (Buf b) s = s"
    using sendToFFmpeg_drops [OF assms, of b] by (simp add: on_message_def forward_def)
  with Cons.IH show ?case by (simp add: tb)
qed

subsection \<open>Closing the service\<close>

lemma close_client_entry:
  assumes "map_of (clients s) k = Some a" and "a < length (heap s)"
  shows "heap (close_client (k, a) s) = (heap s)[a := shut_down (heap s ! a)]
         \<and> clients (close_client (k, a) s) = AList.delete k (clients s)"
proof -
  from assms have g: "clients_get s k = Some (a, heap s ! a)"
    by (simp add: clients_get_def deref_def)
  show ?thesis
    using assms
    by (cases "ffmpegProcess (heap s ! a)")
       (simp_all add: close_client_def Let_def cleanupClient_def g clients_delete_def store_def
          deref_def shut_down_def)
qed

lemma close_clients_fold:
  assumes "distinct (map fst es)"
    and "list_all (\<lambda>e. map_of (clients s) (fst e) = Some (snd e) \<and> snd e < length (heap s)) es"
  shows "heap (fold close_client es s)
           = fold (\<lambda>e h. h[snd e := shut_down (h ! snd e)]) es (heap s)
         \<and> clients (fold close_client es s) = fold (\<lambda>e. AList.delete (fst e)) es (clients s)"
  using assms
proof (induction es arbitrary: s)
  case Nil
  show ?case by simp
next
  case (Cons e es)
  obtain k a where e: "e = (k, a)" by (cases e)
  from Cons.prems(2) e have m: "map_of (clients s) k = Some a" and lt: "a < length (heap s)"
    by simp_all
  note step = close_client_entry [OF m lt]
  from Cons.prems(1) e have nk: "k \<notin> fst ` set es" and dist: "distinct (map fst es)"
    by simp_all
  have "list_all (\<lambda>e'. map_of (clients (close_client (k, a) s)) (fst e') = Some (snd e')
                     \<and> snd e' < length (heap (close_client (k, a) s))) es"
  proof -
    have "fst e' \<noteq> k" if "e' \<in> set es" for e'
      using that nk by auto
    with Cons.prems(2) show ?thesis
      by (simp add: step list_all_iff)
  qed
  from Cons.IH [OF dist this] show ?case
    by (simp add: e step)
qed

lemma fold_shut_down_nth:
  assumes "distinct (map snd es)" and "list_all (\<lambda>e. snd e < length h) es"
  shows "length (fold (\<lambda>e h. h[snd e := shut_down (h ! snd e)]) es h) = length h
         \<and> (\<forall>a < length h. fold (\<lambda>e h. h[snd e := shut_down (h ! snd e)]) es h ! a
               = (if a \<in> snd ` set es then shut_down (h ! a) else h ! a))"
  using assms
proof (induction es arbitrary: h)
  case Nil
  show ?case by simp
next
  case (Cons e es)
  let ?h = "h[snd e := shut_down (h ! snd e)]"
  from Cons.prems have d: "distinct (map snd es)" and ne: "snd e \<notin> snd ` set es"
    and l: "list_all (\<lambda>e. snd e < length ?h) es" and le: "snd e < length h"
    by simp_all
  from Cons.IH [OF d l] ne le show ?case
    by (auto simp add: nth_list_update)
qed

lemma fold_delete_all:
  "fold (\<lambda>e. AList.delete (fst e)) es cl = filter (\<lambda>e'. fst e' \<notin> fst ` set es) cl"
proof (induction es arbitrary: cl)
  case Nil
  show ?case by simp
next
  case (Cons e es)
  have "fold (\<lambda>e. AList.delete (fst e)) (e # es) cl
          = fold (\<lambda>e. AList.delete (fst e)) es (AList.delete (fst e) cl)"
    by simp
  also have "\<dots> = filter (\<lambda>e'. fst e' \<notin> fst ` set es) (AList.delete (fst e) cl)"
    by (rule Cons.IH)
  also have "\<dots> = filter (\<lambda>e'. fst e' \<notin> fst ` set (e # es)) cl"
    by (auto simp add: AList.delete_eq split_def intro: filter_cong)
  finally show ?case .
qed

lemma close_state:
  assumes "well_formed s"
  shows "clients (close s) = []
         \<and> length (heap (close s)) = length (heap s)
         \<and> (\<forall>a < length (heap s). heap (close s) ! a
               = (if a \<in> snd ` set (clients s) then shut_down (heap s ! a) else heap s ! a))
         \<and> \<not> wss_listening (close s) \<and> \<not> pingInterval (close s)"
proof -
  let ?s0 = "s\<lparr>pingInterval := False\<rparr>"
  from assms have dk: "distinct (map fst (clients s))" and da: "distinct (map snd (clients s))"
    and lt: "list_all (\<lambda>e. snd e < length (heap s)) (clients s)"
    by (simp_all add: well_formed_def)
  have en: "list_all (\<lambda>e. map_of (clients ?s0) (fst e) = Some (snd e)
                      \<and> snd e < length (heap ?s0)) (clients s)"
    using dk lt by (auto simp add: list_all_iff)
  from close_clients_fold [OF dk en]
  have h: "heap (fold close_client (clients s) ?s0)
             = fold (\<lambda>e h. h[snd e := shut_down (h ! snd e)]) (clients s) (heap s)"
    and c: "clients (fold close_client (clients s) ?s0)
             = fold (\<lambda>e. AList.delete (fst e)) (clients s) (clients s)"
    by simp_all
  have c0: "clients (close s) = []"
    by (simp add: close_def c fold_delete_all)
  have pi: "pingInterval (fold close_client es s') = pingInterval s'" for es s'
    by (induction es arbitrary: s')
       (auto simp add: close_client_def Let_def cleanupClient_def clients_delete_def store_def
          split: option.splits prod.splits)
  show ?thesis
    using fold_shut_down_nth [OF da lt] c0
    by (simp add: close_def h pi)
qed


lemma shut_down_process:
  assumes "ffmpegProcess c = Some p" and "running p" and "\<not> killed p"
  shows "\<exists>p'. ffmpegProcess (shut_down c) = Some p' \<and> killed p'
           \<and> signals p' = signals p @ [SIGTERM]"
  using assms by (simp add: shut_down_def Let_def kill_def)

lemma shut_down_socket: "readyState (ws (shut_down c)) \<noteq> OPEN"
  by (simp add: shut_down_def Let_def ws_close_def split: option.splits)

lemma three_sessions_registry:
  "clients three_sessions = [(''c1'', 0), (''c2'', 1), (''c3'', 2)]
   \<and> length (heap three_sessions) = 3
   \<and> process_at three_sessions 0 = Some live_process
   \<and> process_at three_sessions 1 = Some live_process
   \<and> process_at three_sessions 2 = Some live_process"
proof -
  have o: "readyState open_socket = OPEN" by (simp add: open_socket_def)
  show ?thesis
    by (simp add: three_sessions_def on_connection_state [OF o] one_session_eval process_at_def
        deref_def accepted_client_def nth_append)
qed

lemma three_sessions_wf: "well_formed three_sessions"
  by (simp add: well_formed_def three_sessions_registry)

text \<open>What shutdown reaches. For an application whose socket service has a well-formed
  registry, \<open>gracefulShutdown\<close> runs the service's \<open>close\<close>, which empties the registry,
  stops the ping timer and the socket server, delivers \<open>SIGTERM\<close> to the FFmpeg process of
  every registered session whose process is running and not yet killed, and leaves no
  registered session's socket open. The HTTP server stops listening and the forced-exit
  timer is armed at 10000 ms: the process exits with code 0 when the server's close
  callback runs, and with code 1 when the timer fires first.\<close>

theorem shutdown_terminates_all:
  assumes "well_formed w" and "wsService ap = Some w" and "server ap = Some srv" and "exit_code ap = None"
  shows "wsService (gracefulShutdown ap) = Some (close w)
       \<and> clients (close w) = []
       \<and> \<not> wss_listening (close w) \<and> \<not> pingInterval (close w)
       \<and> (\<forall>k a p. (k, a) \<in> set (clients w) \<and> process_at w a = Some p \<and> running p \<and> \<not> killed p
            \<longrightarrow> (\<exists>p'. process_at (close w) a = Some p' \<and> killed p'
                    \<and> signals p' = signals p @ [SIGTERM]))
       \<and> (\<forall>k a. (k, a) \<in> set (clients w)
            \<longrightarrow> (\<exists>st. socket_state_at (close w) a = Some st \<and> st \<noteq> OPEN))
       \<and> server (gracefulShutdown ap) = Some (srv\<lparr>listening := False\<rparr>)
       \<and> forced_exit_timer (gracefulShutdown ap) = Some 10000
       \<and> exit_code (server_closed (gracefulShutdown ap)) = Some 0
       \<and> exit_code (forced_exit (gracefulShutdown ap)) = Some 1"
proof -
  note cs = close_state [OF assms(1)]
  have entry: "a < length (heap w) \<and> heap (close w) ! a = shut_down (heap w ! a)
               \<and> deref (close w) a = Some (shut_down (heap w ! a))"
    if "(k, a) \<in> set (clients w)" for k a
  proof -
    from assms(1) that have lt: "a < length (heap w)"
      by (auto simp add: well_formed_def list_all_iff)
    from that have "a \<in> snd ` set (clients w)" by force
    with cs lt show ?thesis by (simp add: deref_def)
  qed
  have procs: "\<exists>p'. process_at (close w) a = Some p' \<and> killed p'
                    \<and> signals p' = signals p @ [SIGTERM]"
    if "(k, a) \<in> set (clients w)" and "process_at w a = Some p" and "running p" and "\<not> killed p"
    for k a p
  proof -
    from entry [OF that(1)] that(2) have "ffmpegProcess (heap w ! a) = Some p"
      by (simp add: process_at_def deref_def)
    from shut_down_process [OF this that(3,4)] entry [OF that(1)]
    show ?thesis by (simp add: process_at_def)
  qed
  have socks: "\<exists>st. socket_state_at (close w) a = Some st \<and> st \<noteq> OPEN"
    if "(k, a) \<in> set (clients w)" for k a
    using entry [OF that] by (simp add: socket_state_at_def shut_down_socket)
  have app: "gracefulShutdown ap =
               ap\<lparr>wsService := Some (close w), server := Some (srv\<lparr>listening := False\<rparr>),
                  exit_when_closed := True, forced_exit_timer := Some 10000\<rparr>"
    using assms(2,3) by (simp add: gracefulShutdown_def Let_def)
  have exits: "exit_code (server_closed (gracefulShutdown ap)) = Some 0
               \<and> exit_code (forced_exit (gracefulShutdown ap)) = Some 1"
    using assms(4) by (simp add: app server_closed_def forced_exit_def process_exit_def)
  from cs procs socks exits show ?thesis
    by (simp add: app) blast
qed


theorem shutdown_terminates_all_witness:
  "well_formed three_sessions \<and> wsService running_app = Some three_sessions
   \<and> server running_app = Some \<lparr>listening = True\<rparr> \<and> exit_code running_app = None
   \<and> getConnectedClients three_sessions = 3
   \<and> wsService (gracefulShutdown running_app) = Some (close three_sessions)
   \<and> clients (close three_sessions) = []
   \<and> signals_at three_sessions 0 = [] \<and> signals_at (close three_sessions) 0 = [SIGTERM]
   \<and> signals_at three_sessions 1 = [] \<and> signals_at (close three_sessions) 1 = [SIGTERM]
   \<and> signals_at three_sessions 2 = [] \<and> signals_at (close three_sessions) 2 = [SIGTERM]
   \<and> socket_state_at (close three_sessions) 0 \<noteq> Some OPEN
   \<and> socket_state_at (close three_sessions) 1 \<noteq> Some OPEN
   \<and> socket_state_at (close three_sessions) 2 \<noteq> Some OPEN
   \<and> server (gracefulShutdown running_app) = Some \<lparr>listening = False\<rparr>
   \<and> forced_exit_timer (gracefulShutdown running_app) = Some 10000
   \<and> exit_code (forced_exit (gracefulShutdown running_app)) = Some 1"
proof -
  have a1: "wsService running_app = Some three_sessions"
    and a2: "server running_app = Some \<lparr>listening = True\<rparr>"
    and a3: "exit_code running_app = None"
    by (simp_all add: running_app_def)
  note t = shutdown_terminates_all [OF three_sessions_wf a1 a2 a3]
  note r = three_sessions_registry
  have lp: "running live_process \<and> \<not> killed live_process \<and> signals live_process = []"
    by (simp add: live_process_def)
  have before: "signals_at three_sessions 0 = [] \<and> signals_at three_sessions 1 = []
                \<and> signals_at three_sessions 2 = []"
    using r lp by (simp add: signals_at_def)
  have sig: "signals_at (close three_sessions) a = [SIGTERM]"
    if "(k, a) \<in> set (clients three_sessions)" and "process_at three_sessions a = Some live_process"
    for k a
  proof -
    from t that lp obtain p' where "process_at (close three_sessions) a = Some p'"
      "signals p' = signals live_process @ [SIGTERM]"
      by blast
    with lp show ?thesis by (simp add: signals_at_def)
  qed
  have sock: "socket_state_at (close three_sessions) a \<noteq> Some OPEN"
    if "(k, a) \<in> set (clients three_sessions)" for k a
  proof -
    from t that obtain st where "socket_state_at (close three_sessions) a = Some st" "st \<noteq> OPEN"
      by blast
    then show ?thesis by simp
  qed
  have e0: "(''c1'', 0) \<in> set (clients three_sessions)"
    and e1: "(''c2'', 1) \<in> set (clients three_sessions)"
    and e2: "(''c3'', 2) \<in> set (clients three_sessions)"
    by (simp_all add: r)
  have n: "getConnectedClients three_sessions = 3"
    by (simp add: getConnectedClients_def r)
  show ?thesis
    using t three_sessions_wf a1 a2 a3 n before sig [OF e0] sig [OF e1] sig [OF e2]
      sock [OF e0] sock [OF e1] sock [OF e2] r
    by simp
qed

subsection \<open>The registry stays well formed\<close>

lemma shrinks_refl: "registry_shrinks s s"
proof -
  have "clients s = filter (\<lambda>e. True) (clients s)" by simp
  then show ?thesis unfolding registry_shrinks_def by blast
qed

lemma shrinks_trans:
  assumes "registry_shrinks s s'" and "registry_shrinks s' s''"
  shows "registry_shrinks s s''"
proof -
  from assms obtain P Q where "clients s' = filter P (clients s)" "clients s'' = filter Q (clients s')"
    by (auto simp add: registry_shrinks_def)
  then have "clients s'' = filter (\<lambda>e. P e \<and> Q e) (clients s)" by simp
  with assms show ?thesis unfolding registry_shrinks_def by (metis (no_types, lifting))
qed

lemma shrinks_same:
  "length (heap s') = length (heap s) \<Longrightarrow> clients s' = clients s \<Longrightarrow> registry_shrinks s s'"
  using shrinks_refl [of s] by (simp add: registry_shrinks_def)

lemma shrinks_store: "registry_shrinks s (store a c s)"
  by (simp add: shrinks_same store_def)

lemma shrinks_delete: "registry_shrinks s (clients_delete k s)"
  unfolding registry_shrinks_def clients_delete_def
  by (simp add: AList.delete_eq) blast

lemma shrinks_fold:
  assumes "\<And>x s. registry_shrinks s (f x s)"
  shows "registry_shrinks s (fold f xs s)"
proof (induction xs arbitrary: s)
  case Nil
  show ?case by (simp add: shrinks_refl)
next
  case (Cons x xs)
  from assms [of s x] Cons.IH [of "f x s"] show ?case
    by (simp add: shrinks_trans)
qed

lemma shrinks_wf:
  assumes "registry_shrinks s s'" and "well_formed s"
  shows "well_formed s'"
proof -
  from assms(1) obtain P where l: "length (heap s') = length (heap s)"
    and c: "clients s' = filter P (clients s)"
    by (auto simp add: registry_shrinks_def)
  from assms(2) show ?thesis
    by (simp add: well_formed_def l c distinct_map_filter list_all_iff)
qed

lemma shrinks_sendToClient: "registry_shrinks s (sendToClient k d s)"
  by (simp add: sendToClient_def shrinks_refl shrinks_store split: option.splits prod.splits)

lemma shrinks_sendToFFmpeg: "registry_shrinks s (sendToFFmpeg k b s)"
  by (simp add: sendToFFmpeg_def shrinks_refl shrinks_store split: option.splits prod.splits)

lemma shrinks_cleanupClient: "registry_shrinks s (cleanupClient k s)"
proof -
  have t: "registry_shrinks s ((store a c s)\<lparr>timeouts := t\<rparr>)" for a c t
    by (simp add: shrinks_same store_def)
  show ?thesis
    by (auto simp add: cleanupClient_def shrinks_refl split: option.splits prod.splits
        intro: shrinks_trans [OF _ shrinks_delete] shrinks_refl t)
qed

lemma shrinks_ping_client: "registry_shrinks s (ping_client now e s)"
  by (auto simp add: ping_client_def shrinks_refl shrinks_store shrinks_delete
      split: option.splits prod.splits
      intro: shrinks_trans [OF shrinks_store shrinks_delete])

lemma shrinks_close_client: "registry_shrinks s (close_client e s)"
  by (auto simp add: close_client_def Let_def shrinks_cleanupClient split: option.splits prod.splits
      intro: shrinks_trans [OF shrinks_cleanupClient shrinks_store])

lemma shrinks_close: "registry_shrinks s (close s)"
proof -
  have "registry_shrinks s (s\<lparr>pingInterval := False\<rparr>)"
    by (simp add: shrinks_same)
  moreover have "registry_shrinks (s\<lparr>pingInterval := False\<rparr>)
      (fold close_client (clients s) (s\<lparr>pingInterval := False\<rparr>))"
    by (rule shrinks_fold) (rule shrinks_close_client)
  moreover have "registry_shrinks s' (s'\<lparr>wss_listening := False\<rparr>)" for s'
    by (simp add: shrinks_same)
  ultimately show ?thesis
    unfolding close_def by (blast intro: shrinks_trans)
qed

lemma update_fresh_address:
  assumes "distinct (map snd al)" and "v \<notin> snd ` set al"
  shows "distinct (map snd (AList.update k v al))"
  using assms
proof (induction al)
  case Nil
  show ?case by simp
next
  case (Cons e al)
  obtain k' v' where e: "e = (k', v')" by (cases e)
  have sub: "snd ` set (AList.update k v al) \<subseteq> insert v (snd ` set al)"
    by (induction al) auto
  from Cons e sub show ?case by (auto simp add: image_iff)
qed

lemma well_formed_on_connection:
  assumes "well_formed s"
  shows "well_formed (on_connection socket k now spawned s)"
proof -
  let ?s1 = "clients_set k (length (heap s)) (s\<lparr>heap := heap s @ [c0]\<rparr>)"
  have fresh: "length (heap s) \<notin> snd ` set (clients s)"
    using assms by (auto simp add: well_formed_def list_all_iff)
  have sub: "set (AList.update k v al) \<subseteq> insert (k, v) (set al)" for v and al :: "(string \<times> nat) list"
    by (induction al) auto
  have w1: "well_formed (clients_set k (length (heap s)) (s\<lparr>heap := heap s @ [c0]\<rparr>))" for c0
    using assms fresh sub [of "length (heap s)" "clients s"]
    by (auto simp add: well_formed_def clients_set_def AList.distinct_update update_fresh_address
        list_all_iff less_Suc_eq)
  have "registry_shrinks s1 (createFFmpegProcess k spawned s1)" for s1
    by (simp add: createFFmpegProcess_def shrinks_refl shrinks_store shrinks_sendToClient
        split: option.splits prod.splits sum.splits)
  from shrinks_trans [OF this shrinks_sendToClient] w1 show ?thesis
    unfolding on_connection_def Let_def by (rule shrinks_wf)
qed

lemma well_formed_initial: "well_formed initial_service"
  by (simp add: well_formed_def initial_service_def)

lemma shrinks_on_message: "registry_shrinks s (on_message JSON_parse k now d s)"
  by (cases d)
     (simp_all add: on_message_def heartbeat_def forward_def shrinks_refl shrinks_store
        shrinks_sendToFFmpeg split: option.splits prod.splits)

lemma shrinks_on_close: "registry_shrinks s (on_close a k s)"
proof -
  have "registry_shrinks s (mark_closed a s)"
    by (simp add: mark_closed_def shrinks_refl shrinks_store split: option.splits)
  then show ?thesis
    unfolding on_close_def by (rule shrinks_trans) (rule shrinks_cleanupClient)
qed

lemma shrinks_on_error: "registry_shrinks s (on_error a k s)"
proof -
  have "registry_shrinks s (mark_closing a s)"
    by (simp add: mark_closing_def shrinks_refl shrinks_store split: option.splits)
  then show ?thesis
    unfolding on_error_def by (rule shrinks_trans) (rule shrinks_cleanupClient)
qed

lemma shrinks_launch_failed: "registry_shrinks s (launch_failed a k s)"
proof -
  have "registry_shrinks s (case deref s a of
          None \<Rightarrow> s
        | Some client \<Rightarrow>
            (case ffmpegProcess client of
               None \<Rightarrow> s
             | Some p \<Rightarrow> store a (client\<lparr>ffmpegProcess := Some (process_gone p)\<rparr>) s))"
    by (simp add: shrinks_refl shrinks_store split: option.splits)
  then show ?thesis
    unfolding launch_failed_def ffmpeg_on_error_def
    by (rule shrinks_trans) (rule shrinks_sendToClient)
qed

lemma shrinks_disconnectClient: "registry_shrinks s (snd (disconnectClient k s))"
  by (auto simp add: disconnectClient_def shrinks_refl split: option.splits prod.splits
      intro: shrinks_trans [OF shrinks_store shrinks_delete])

lemma well_formed_step:
  assumes "well_formed s"
  shows "well_formed (step JSON_parse e s)"
proof (cases e)
  case (Connect socket k now spawned)
  with assms show ?thesis by (simp add: well_formed_on_connection)
next
  case (Message k now d)
  show ?thesis
    unfolding Message step.simps by (rule shrinks_wf [OF shrinks_on_message assms])
next
  case (Pong k now)
  have "registry_shrinks s (on_pong k now s)"
    by (simp add: on_pong_def shrinks_refl shrinks_store split: option.splits prod.splits)
  then show ?thesis
    unfolding Pong step.simps using assms by (rule shrinks_wf)
next
  case (SocketClose a k)
  show ?thesis
    unfolding SocketClose step.simps by (rule shrinks_wf [OF shrinks_on_close assms])
next
  case (SocketError a k)
  show ?thesis
    unfolding SocketError step.simps by (rule shrinks_wf [OF shrinks_on_error assms])
next
  case (FfmpegStdout a chunk)
  have "registry_shrinks s (ffmpeg_stdout_data a chunk s)"
    by (simp add: ffmpeg_stdout_data_def shrinks_refl shrinks_store split: option.splits)
  then show ?thesis
    unfolding FfmpegStdout step.simps using assms by (rule shrinks_wf)
next
  case (FfmpegError k)
  show ?thesis
    unfolding FfmpegError step.simps ffmpeg_on_error_def
    by (rule shrinks_wf [OF shrinks_sendToClient assms])
next
  case (FfmpegExit a)
  have "registry_shrinks s (ffmpeg_on_exit a s)"
    by (simp add: ffmpeg_on_exit_def shrinks_refl shrinks_store split: option.splits)
  then show ?thesis
    unfolding FfmpegExit step.simps using assms by (rule shrinks_wf)
next
  case (LaunchFailed a k)
  show ?thesis
    unfolding LaunchFailed step.simps by (rule shrinks_wf [OF shrinks_launch_failed assms])
next
  case (PingTick now)
  have "registry_shrinks s (ping_tick now s)"
    unfolding ping_tick_def by (rule shrinks_fold) (rule shrinks_ping_client)
  then show ?thesis
    unfolding PingTick step.simps using assms by (rule shrinks_wf)
next
  case (ForceKill a)
  have "registry_shrinks s (force_kill a s)"
    by (simp add: force_kill_def shrinks_refl shrinks_store split: option.splits)
  then show ?thesis
    unfolding ForceKill step.simps using assms by (rule shrinks_wf)
next
  case (Disconnect k)
  show ?thesis
    unfolding Disconnect step.simps by (rule shrinks_wf [OF shrinks_disconnectClient assms])
next
  case Close
  show ?thesis
    unfolding Close step.simps by (rule shrinks_wf [OF shrinks_close assms])
qed

lemma well_formed_run: "well_formed s \<Longrightarrow> well_formed (run JSON_parse evs s)"
  unfolding run_def by (induction evs arbitrary: s) (simp_all add: well_formed_step)

lemma well_formed_reachable: "well_formed (run JSON_parse evs initial_service)"
  by (rule well_formed_run [OF well_formed_initial])

subsection \<open>What leaves a session in place\<close>

lemma kept_refl: "session_kept k a s s"
  by (simp add: session_kept_def)

lemma kept_trans: "session_kept k a s s' \<Longrightarrow> session_kept k a s' s'' \<Longrightarrow> session_kept k a s s''"
  by (simp add: session_kept_def)

lemma kept_store:
  assumes "deref s b = Some c" and "readyState (ws c') = readyState (ws c)"
  shows "session_kept k a s (store b c' s)"
proof -
  from assms(1) have "b < length (heap s)" by (simp add: deref_SomeD)
  with assms show ?thesis
    by (simp add: session_kept_def socket_state_at_def deref_store clients_store)
qed

lemma kept_store_other: "b \<noteq> a \<Longrightarrow> session_kept k a s (store b c' s)"
  by (simp add: session_kept_def socket_state_at_def deref_store clients_store)

lemma kept_delete_other:
  assumes "k' \<noteq> k"
  shows "session_kept k a s (clients_delete k' s)"
proof -
  have "clients (clients_delete k' s) = AList.delete k' (clients s)"
    by (simp add: clients_delete_def)
  with assms show ?thesis
    by (simp add: session_kept_def socket_state_at_def deref_clients_delete)
qed

lemma kept_timeouts: "session_kept k a s (s\<lparr>timeouts := t\<rparr>)"
  by (simp add: session_kept_def socket_state_at_def deref_timeouts)

lemma kept_sendToClient: "session_kept k a s (sendToClient k' d s)"
proof (cases "clients_get s k'")
  case None
  then show ?thesis by (simp add: sendToClient_def kept_refl)
next
  case (Some e)
  obtain b c where e: "e = (b, c)" by (cases e)
  from Some e have d: "deref s b = Some c" by (simp add: clients_get_SomeD)
  show ?thesis
    using Some e by (simp add: sendToClient_def kept_refl kept_store [OF d] ws_send_def)
qed

lemma kept_sendToFFmpeg: "session_kept k a s (sendToFFmpeg k' b s)"
proof (cases "clients_get s k'")
  case None
  then show ?thesis by (simp add: sendToFFmpeg_def kept_refl)
next
  case (Some e)
  obtain b' c where e: "e = (b', c)" by (cases e)
  from Some e have d: "deref s b' = Some c" by (simp add: clients_get_SomeD)
  show ?thesis
    using Some e
    by (auto simp add: sendToFFmpeg_def kept_refl kept_store [OF d] split: option.splits)
qed

lemma kept_on_message: "session_kept k a s (on_message JSON_parse k' now d s)"
proof -
  have h: "session_kept k a s (heartbeat k' now s)"
  proof (cases "clients_get s k'")
    case None
    then show ?thesis by (simp add: heartbeat_def kept_refl)
  next
    case (Some e)
    obtain b c where e: "e = (b, c)" by (cases e)
    from Some e have d: "deref s b = Some c" by (simp add: clients_get_SomeD)
    show ?thesis using Some e by (simp add: heartbeat_def kept_store [OF d])
  qed
  have f: "session_kept k a s (forward k' b s)" for b
    by (simp add: forward_def kept_refl kept_sendToFFmpeg)
  show ?thesis by (cases d) (simp_all add: on_message_def h f)
qed

lemma kept_on_pong: "session_kept k a s (on_pong k' now s)"
proof (cases "clients_get s k'")
  case None
  then show ?thesis by (simp add: on_pong_def kept_refl)
next
  case (Some e)
  obtain b c where e: "e = (b, c)" by (cases e)
  from Some e have d: "deref s b = Some c" by (simp add: clients_get_SomeD)
  show ?thesis using Some e by (simp add: on_pong_def kept_store [OF d])
qed

lemma kept_stdout: "session_kept k a s (ffmpeg_stdout_data b chunk s)"
proof (cases "deref s b")
  case None
  then show ?thesis by (simp add: ffmpeg_stdout_data_def kept_refl)
next
  case (Some c)
  show ?thesis
    using Some by (simp add: ffmpeg_stdout_data_def kept_refl kept_store [OF Some] ws_send_def)
qed

lemma kept_on_exit: "session_kept k a s (ffmpeg_on_exit b s)"
proof (cases "deref s b")
  case None
  then show ?thesis by (simp add: ffmpeg_on_exit_def kept_refl)
next
  case (Some c)
  show ?thesis using Some by (simp add: ffmpeg_on_exit_def kept_store [OF Some])
qed

lemma kept_launch_failed: "session_kept k a s (launch_failed b k' s)"
proof -
  have "session_kept k a s (case deref s b of
          None \<Rightarrow> s
        | Some client \<Rightarrow>
            (case ffmpegProcess client of
               None \<Rightarrow> s
             | Some p \<Rightarrow> store b (client\<lparr>ffmpegProcess := Some (process_gone p)\<rparr>) s))"
    by (auto simp add: kept_refl split: option.splits intro: kept_store)
  then show ?thesis
    unfolding launch_failed_def ffmpeg_on_error_def
    by (rule kept_trans) (rule kept_sendToClient)
qed

lemma kept_force_kill: "session_kept k a s (force_kill b s)"
proof (cases "deref s b")
  case None
  then show ?thesis by (simp add: force_kill_def kept_refl)
next
  case (Some c)
  show ?thesis
    using Some
    by (auto simp add: force_kill_def kept_refl kept_store [OF Some] split: option.splits)
qed

lemma kept_cleanupClient:
  assumes "k' \<noteq> k"
  shows "session_kept k a s (cleanupClient k' s)"
proof (cases "clients_get s k'")
  case None
  then show ?thesis by (simp add: cleanupClient_def kept_refl)
next
  case (Some e)
  obtain b c where e: "e = (b, c)" by (cases e)
  from Some e have d: "deref s b = Some c" by (simp add: clients_get_SomeD)
  have "session_kept k a s (case ffmpegProcess c of
               None \<Rightarrow> s
             | Some p \<Rightarrow>
                 if \<not> killed p
                 then (store b (c\<lparr>ffmpegProcess := Some (kill SIGTERM p)\<rparr>) s)
                        \<lparr>timeouts := timeouts s @ [(5000, b)]\<rparr>
                 else s)"
    by (auto simp add: kept_refl split: option.splits
        intro: kept_trans [OF kept_store [OF d] kept_timeouts])
  then show ?thesis
    using Some e
    by (simp add: cleanupClient_def) (rule kept_trans [OF _ kept_delete_other [OF assms]])
qed

lemma kept_on_close:
  assumes "a' \<noteq> a" and "k' \<noteq> k"
  shows "session_kept k a s (on_close a' k' s)"
proof -
  have "session_kept k a s (mark_closed a' s)"
    by (simp add: mark_closed_def kept_refl kept_store_other [OF assms(1)] split: option.splits)
  then show ?thesis
    unfolding on_close_def by (rule kept_trans) (rule kept_cleanupClient [OF assms(2)])
qed

lemma kept_on_error:
  assumes "a' \<noteq> a" and "k' \<noteq> k"
  shows "session_kept k a s (on_error a' k' s)"
proof -
  have "session_kept k a s (mark_closing a' s)"
    by (simp add: mark_closing_def kept_refl kept_store_other [OF assms(1)] split: option.splits)
  then show ?thesis
    unfolding on_error_def by (rule kept_trans) (rule kept_cleanupClient [OF assms(2)])
qed

lemma clients_on_connection:
  "clients (on_connection socket k now spawned s)
     = AList.update k (length (heap s)) (clients s)"
  by (cases spawned)
     (simp_all add: on_connection_def Let_def clients_set_def createFFmpegProcess_def
        sendToClient_def clients_get_def deref_def store_def AList.update_conv')

lemma kept_on_connection:
  assumes "k' \<noteq> k" and "a < length (heap s)"
  shows "session_kept k a s (on_connection socket k' now spawned s)"
  using assms
  by (simp add: session_kept_def clients_on_connection AList.update_conv' socket_state_at_def
      on_connection_keeps)

lemma registry_address_unique:
  assumes "well_formed s" and "map_of (clients s) k = Some a" and "map_of (clients s) k' = Some a"
  shows "k' = k"
proof -
  from assms(1) have dk: "distinct (map fst (clients s))" and da: "distinct (map snd (clients s))"
    by (simp_all add: well_formed_def)
  from assms(2,3) have "(k, a) \<in> set (clients s)" "(k', a) \<in> set (clients s)"
    by (auto dest: map_of_SomeD)
  with da show ?thesis
    by (metis (no_types, lifting) distinct_map eq_key_imp_eq_value fst_conv inj_onD snd_conv)
qed

lemma kept_disconnectClient:
  assumes "k' \<noteq> k" and "well_formed s" and "map_of (clients s) k = Some a"
  shows "session_kept k a s (snd (disconnectClient k' s))"
proof (cases "clients_get s k'")
  case None
  then show ?thesis by (simp add: disconnectClient_def kept_refl)
next
  case (Some e)
  obtain b c where e: "e = (b, c)" by (cases e)
  from Some e have m: "map_of (clients s) k' = Some b" by (simp add: clients_get_SomeD)
  have "b \<noteq> a"
    using registry_address_unique [OF assms(2,3)] m assms(1) by blast
  then have "session_kept k a s (clients_delete k' (store b (c\<lparr>ws := ws_close (ws c)\<rparr>) s))"
    by (rule kept_trans [OF kept_store_other kept_delete_other [OF assms(1)]])
  with Some e show ?thesis by (simp add: disconnectClient_def)
qed

lemma ping_client_other:
  assumes "b \<noteq> a" and "k' \<noteq> k"
  shows "session_kept k a s (ping_client now (k', b) s)
       \<and> deref (ping_client now (k', b) s) a = deref s a"
proof (cases "deref s b")
  case None
  then show ?thesis by (simp add: ping_client_def kept_refl)
next
  case (Some c)
  have d: "deref (clients_delete k' s') a = deref s' a" for s'
    by (simp add: clients_delete_def deref_def)
  have st: "deref (store b c' s) a = deref s a" for c'
    using assms(1) by (simp add: deref_store)
  have k1: "session_kept k a s (clients_delete k' s)"
    by (rule kept_delete_other [OF assms(2)])
  have k2: "session_kept k a s (clients_delete k' (store b c' s))" for c'
    by (rule kept_trans [OF kept_store_other [OF assms(1)] kept_delete_other [OF assms(2)]])
  have k3: "session_kept k a s (store b c' s)" for c'
    by (rule kept_store_other [OF assms(1)])
  show ?thesis
    using Some k1 k2 k3 by (simp add: ping_client_def d st)
qed

lemma ping_others:
  assumes "\<forall>e\<in>set es. fst e \<noteq> k \<and> snd e \<noteq> a"
  shows "session_kept k a s (fold (ping_client now) es s)
       \<and> deref (fold (ping_client now) es s) a = deref s a"
  using assms
proof (induction es arbitrary: s)
  case Nil
  show ?case by (simp add: kept_refl)
next
  case (Cons e es)
  obtain k' b where e: "e = (k', b)" by (cases e)
  from Cons.prems e have ne: "b \<noteq> a" "k' \<noteq> k" and rest: "\<forall>e\<in>set es. fst e \<noteq> k \<and> snd e \<noteq> a"
    by simp_all
  from ping_client_other [OF ne, where s = s and now = now]
    Cons.IH [OF rest, where s = "ping_client now (k', b) s"]
  show ?case
    by (auto simp add: e intro: kept_trans)
qed

lemma ping_own:
  assumes "tick_keeps now s a"
  shows "session_kept k a s (ping_client now (k, a) s)"
proof -
  from assms obtain c where c: "deref s a = Some c" "readyState (ws c) = OPEN"
      "\<not> now - lastPing c > PONG_TIMEOUT" "isAlive c"
    by (auto simp add: tick_keeps_def split: option.splits)
  have "session_kept k a s (store a (c\<lparr>isAlive := False, ws := ws_ping (ws c)\<rparr>) s)"
    by (rule kept_store [OF c(1)]) (simp add: ws_ping_def)
  with c show ?thesis by (simp add: ping_client_def)
qed

lemma kept_ping_tick:
  assumes "well_formed s" and "map_of (clients s) k = Some a" and "tick_keeps now s a"
  shows "session_kept k a s (ping_tick now s)"
proof -
  from assms(1) have dk: "distinct (map fst (clients s))" and da: "distinct (map snd (clients s))"
    by (simp_all add: well_formed_def)
  from assms(2) have "(k, a) \<in> set (clients s)" by (rule map_of_SomeD)
  then obtain xs ys where sp: "clients s = xs @ (k, a) # ys"
    by (auto dest: split_list)
  from dk da sp have ox: "\<forall>e\<in>set xs. fst e \<noteq> k \<and> snd e \<noteq> a"
    and oy: "\<forall>e\<in>set ys. fst e \<noteq> k \<and> snd e \<noteq> a"
    by auto
  let ?s1 = "fold (ping_client now) xs s"
  let ?s2 = "ping_client now (k, a) ?s1"
  from ping_others [OF ox, where s = s and now = now]
  have k1: "session_kept k a s ?s1" and d1: "deref ?s1 a = deref s a" by simp_all
  from assms(3) d1 have "tick_keeps now ?s1 a" by (simp add: tick_keeps_def)
  then have k2: "session_kept k a ?s1 ?s2" by (rule ping_own)
  from ping_others [OF oy, where s = ?s2 and now = now]
  have k3: "session_kept k a ?s2 (fold (ping_client now) ys ?s2)" by simp
  have "ping_tick now s = fold (ping_client now) ys ?s2"
    by (simp add: ping_tick_def sp)
  with k1 k2 k3 show ?thesis by (auto intro: kept_trans)
qed

lemma kept_step:
  assumes "well_formed s" and "map_of (clients s) k = Some a" and "leaves_session k a e s"
  shows "session_kept k a s (step JSON_parse e s)"
proof -
  from assms(1,2) have lt: "a < length (heap s)"
    by (auto simp add: well_formed_def list_all_iff dest: map_of_SomeD)
  show ?thesis
    using assms(3) lt
    by (cases e)
       (simp_all add: kept_on_connection kept_on_message kept_on_pong kept_on_close kept_on_error
          kept_stdout ffmpeg_on_error_def kept_sendToClient kept_on_exit kept_launch_failed
          kept_force_kill kept_disconnectClient [OF _ assms(1,2)] kept_ping_tick [OF assms(1,2)])
qed

lemma kept_run:
  assumes "well_formed s" and "map_of (clients s) k = Some a"
    and "undisturbed JSON_parse k a evs s"
  shows "session_kept k a s (run JSON_parse evs s)"
  using assms
proof (induction evs arbitrary: s)
  case Nil
  show ?case by (simp add: run_def kept_refl)
next
  case (Cons e evs)
  from Cons.prems(3) have e: "leaves_session k a e s"
    and rest: "undisturbed JSON_parse k a evs (step JSON_parse e s)"
    by simp_all
  note st = kept_step [OF Cons.prems(1,2) e, of JSON_parse]
  then have m: "map_of (clients (step JSON_parse e s)) k = Some a"
    using Cons.prems(2) by (simp add: session_kept_def)
  have w: "well_formed (step JSON_parse e s)" by (rule well_formed_step [OF Cons.prems(1)])
  from Cons.IH [OF w m rest] have "session_kept k a (step JSON_parse e s)
      (run JSON_parse evs (step JSON_parse e s))" .
  with st show ?case
    by (simp add: run_def kept_trans)
qed

lemma one_session_well_formed:
  "well_formed (one_session t) \<and> map_of (clients (one_session t)) ''c1'' = Some 0"
  by (simp add: one_session_eval well_formed_def)


lemma degraded_events_undisturbed:
  "undisturbed parse_control_messages ''c1'' 0 degraded_events (ffmpeg_on_exit 0 (one_session 50000))"
  by (simp add: degraded_events_def one_session_eval ffmpeg_on_exit_def deref_def store_def
      on_message_def is_heartbeat_def parse_control_messages_def
      heartbeat_text_def test_text_def heartbeat_def forward_def
      sendToFFmpeg_def clients_get_def on_connection_def clients_set_def createFFmpegProcess_def
      sendToClient_def ws_send_def open_socket_def Let_def tick_keeps_def PONG_TIMEOUT_def
      ping_tick_def ping_client_def clients_delete_def ws_terminate_def ws_ping_def on_pong_def
      ffmpeg_stdout_data_def)

lemma degraded_events_then_silence:
  "\<not> undisturbed parse_control_messages ''c1'' 0 (degraded_events @ [PingTick 180000])
      (ffmpeg_on_exit 0 (one_session 50000))"
  by (simp add: degraded_events_def one_session_eval ffmpeg_on_exit_def deref_def store_def
      on_message_def is_heartbeat_def parse_control_messages_def
      heartbeat_text_def test_text_def heartbeat_def forward_def
      sendToFFmpeg_def clients_get_def on_connection_def clients_set_def createFFmpegProcess_def
      sendToClient_def ws_send_def open_socket_def Let_def tick_keeps_def PONG_TIMEOUT_def
      ping_tick_def ping_client_def clients_delete_def ws_terminate_def ws_ping_def on_pong_def
      ffmpeg_stdout_data_def)

subsection \<open>Generated ids\<close>

lemma length_byteToHex: "length (byteToHex b) = 2"
  by (simp add: byteToHex_def)

lemma length_hex_of: "length (hex_of bs) = 2 * length bs"
  by (induction bs) (simp_all add: hex_of_def length_byteToHex)

lemma hex_digit_inj:
  assumes "i < 16" and "j < 16" and "''0123456789abcdef'' ! i = ''0123456789abcdef'' ! j"
  shows "i = j"
proof -
  have d: "distinct ''0123456789abcdef''" by simp
  have l: "length ''0123456789abcdef'' = 16" by simp
  from assms show ?thesis
    using nth_eq_iff_index_eq [OF d, of i j] by (simp only: l)
qed

lemma byteToHex_inj:
  assumes "byteToHex b = byteToHex b'"
  shows "b = b'"
proof -
  have lt: "unat x div 16 < 16" "unat x mod 16 < 16" for x :: "8 word"
    using unsigned_less [of x, where 'a = nat] by simp_all
  from assms have "unat b div 16 = unat b' div 16" and "unat b mod 16 = unat b' mod 16"
    by (auto simp add: byteToHex_def intro: hex_digit_inj lt)
  then have "unat b = unat b'"
    by (metis div_mult_mod_eq)
  then show ?thesis by (simp add: word_unat_eq_iff)
qed

lemma hex_of_inj:
  assumes "hex_of xs = hex_of ys"
  shows "xs = ys"
  using assms
proof (induction xs arbitrary: ys)
  case Nil
  then have "length (hex_of ys) = 0" by (simp add: hex_of_def)
  then show ?case by (simp add: length_hex_of)
next
  case (Cons x xs)
  from Cons.prems have "length (hex_of (x # xs)) = length (hex_of ys)"
    by simp
  then have "length ys = Suc (length xs)"
    by (simp add: length_hex_of)
  then obtain y ys' where ys: "ys = y # ys'"
    by (cases ys) simp_all
  from Cons.prems ys have "byteToHex x @ hex_of xs = byteToHex y @ hex_of ys'"
    by (simp add: hex_of_def)
  then have "byteToHex x = byteToHex y \<and> hex_of xs = hex_of ys'"
    by (simp add: append_eq_append_conv length_byteToHex)
  with Cons.IH [of ys'] ys show ?case
    by (simp add: byteToHex_inj)
qed

lemma unsafeStringify_inj:
  assumes "length x = 16" and "length y = 16" and "unsafeStringify x = unsafeStringify y"
  shows "x = y"
proof -
  from assms have "hex_of (take 4 x) = hex_of (take 4 y)
      \<and> hex_of (take 2 (drop 4 x)) = hex_of (take 2 (drop 4 y))
      \<and> hex_of (take 2 (drop 6 x)) = hex_of (take 2 (drop 6 y))
      \<and> hex_of (take 2 (drop 8 x)) = hex_of (take 2 (drop 8 y))
      \<and> hex_of (take 6 (drop 10 x)) = hex_of (take 6 (drop 10 y))"
    by (simp add: unsafeStringify_def append_eq_append_conv length_hex_of)
  then have p: "take 4 x = take 4 y" "take 2 (drop 4 x) = take 2 (drop 4 y)"
    "take 2 (drop 6 x) = take 2 (drop 6 y)" "take 2 (drop 8 x) = take 2 (drop 8 y)"
    "take 6 (drop 10 x) = take 6 (drop 10 y)"
    by (simp_all add: hex_of_inj)
  have split: "z = take 4 z @ take 2 (drop 4 z) @ take 2 (drop 6 z) @ take 2 (drop 8 z)
                 @ take 6 (drop 10 z)" if "length z = 16" for z :: buffer
  proof -
    have a: "take 6 (drop 10 z) = drop 10 z" using that by simp
    have "take 2 (drop 8 z) @ drop 2 (drop 8 z) = drop 8 z" by (rule append_take_drop_id)
    then have b: "take 2 (drop 8 z) @ drop 10 z = drop 8 z" by simp
    have "take 2 (drop 6 z) @ drop 2 (drop 6 z) = drop 6 z" by (rule append_take_drop_id)
    then have c: "take 2 (drop 6 z) @ drop 8 z = drop 6 z" by simp
    have "take 2 (drop 4 z) @ drop 2 (drop 4 z) = drop 4 z" by (rule append_take_drop_id)
    then have d: "take 2 (drop 4 z) @ drop 6 z = drop 4 z" by simp
    have e: "take 4 z @ drop 4 z = z" by (rule append_take_drop_id)
    show ?thesis by (simp only: a b c d e)
  qed
  have "x = take 4 x @ take 2 (drop 4 x) @ take 2 (drop 6 x) @ take 2 (drop 8 x)
                 @ take 6 (drop 10 x)"
    by (rule split [OF assms(1)])
  also have "\<dots> = take 4 y @ take 2 (drop 4 y) @ take 2 (drop 6 y) @ take 2 (drop 8 y)
                 @ take 6 (drop 10 y)"
    by (simp only: p)
  also have "\<dots> = y"
    by (rule split [OF assms(2), symmetric])
  finally show ?thesis .
qed

lemma length_uuidv4:
  assumes "length rnds = 16"
  shows "length (uuidv4 rnds) = 36"
  using assms
  by (simp add: uuidv4_def unsafeStringify_def length_hex_of set_version_bits_def)

lemma uuidv4_inj:
  assumes "length r = 16" and "length r' = 16" and "uuidv4 r = uuidv4 r'"
  shows "set_version_bits r = set_version_bits r'"
proof -
  have "length (set_version_bits z) = length z" for z
    by (simp add: set_version_bits_def)
  with assms show ?thesis
    unfolding uuidv4_def by (auto intro: unsafeStringify_inj)
qed

lemma uuidv4_examples:
  "uuidv4 entropy_a = ''00010203-0405-4607-8809-0a0b0c0d0eff''
   \<and> uuidv4 entropy_b = ''10203040-5060-4080-90a0-b0c0d0e0f001''"
  by (simp add: uuidv4_def unsafeStringify_def set_version_bits_def hex_of_def byteToHex_def
      entropy_a_def entropy_b_def)

lemma update_new_key: "k \<notin> fst ` set al \<Longrightarrow> AList.update k v al = al @ [(k, v)]"
  by (induction al) auto

lemma on_connection_frames:
  assumes "readyState socket = OPEN" and "sent socket = []"
  shows "filter is_connection
           (frames_at (run JSON_parse evs (on_connection socket k now spawned s)) (length (heap s)))
           = [JsonText (ConnectionMsg ''Connected to Black & White Video Processing Server'' k)]
       \<and> (spawned = Inr p \<longrightarrow>
            take 1 (frames_at (run JSON_parse evs (on_connection socket k now spawned s))
                      (length (heap s)))
              = [JsonText (ConnectionMsg ''Connected to Black & White Video Processing Server'' k)])"
proof -
  let ?s1 = "on_connection socket k now spawned s"
  let ?n = "length (heap s)"
  from evolves_run [of ?n ?s1 JSON_parse evs] accepted_deref [OF assms(1), of k now spawned s]
  obtain c' where c': "deref (run JSON_parse evs ?s1) ?n = Some c'"
      "carries_on (accepted_client socket k now spawned) c'"
    by (auto simp add: evolves_def)
  from c'(2) obtain more where more:
      "sent (ws c') = sent (ws (accepted_client socket k now spawned)) @ more"
      "filter is_connection more = []"
    by (auto simp add: carries_on_def)
  have fr: "frames_at (run JSON_parse evs ?s1) ?n
              = sent (ws (accepted_client socket k now spawned)) @ more"
    using c'(1) more(1) by (simp add: frames_at_def)
  show ?thesis
    using more(2) assms(2) fr
    by (cases spawned) (auto simp add: accepted_client_def)
qed

lemma first_uuid_session:
  "clients (accept_connection open_socket entropy_a 0 (Inr live_process) initial_service)
     = [(uuidv4 entropy_a, 0)]
   \<and> length (heap (accept_connection open_socket entropy_a 0 (Inr live_process) initial_service))
     = 1"
proof -
  have o: "readyState open_socket = OPEN" by (simp add: open_socket_def)
  show ?thesis
    by (simp add: accept_connection_def Let_def on_connection_state [OF o] initial_service_def)
qed

subsection \<open>A session lost to the monitor\<close>

lemma session_lost_by_monitor_eval:
  "session_lost_by_monitor =
     \<lparr>heap = [\<lparr>client_id = ''c1'',
               ws = \<lparr>readyState = CLOSED,
                     sent = [JsonText (ConnectionMsg ''Connected to Black & White Video Processing Server'' ''c1'')],
                     pings = 0, terminated = True\<rparr>,
               isAlive = True, lastPing = 0, ffmpegProcess = Some live_process\<rparr>,
              \<lparr>client_id = ''c2'',
               ws = \<lparr>readyState = OPEN,
                     sent = [JsonText (ConnectionMsg ''Connected to Black & White Video Processing Server'' ''c2'')],
                     pings = 1, terminated = False\<rparr>,
               isAlive = False, lastPing = 30000, ffmpegProcess = Some live_process\<rparr>],
      clients = [(''c2'', 1)], pingInterval = True, wss_listening = True, timeouts = []\<rparr>"
proof -
  have o: "readyState open_socket = OPEN" by (simp add: open_socket_def)
  have two: "on_connection open_socket ''c2'' 30000 (Inr live_process) (one_session 0) =
     \<lparr>heap = [\<lparr>client_id = ''c1'',
               ws = \<lparr>readyState = OPEN,
                     sent = [JsonText (ConnectionMsg ''Connected to Black & White Video Processing Server'' ''c1'')],
                     pings = 0, terminated = False\<rparr>,
               isAlive = True, lastPing = 0, ffmpegProcess = Some live_process\<rparr>,
              \<lparr>client_id = ''c2'',
               ws = \<lparr>readyState = OPEN,
                     sent = [JsonText (ConnectionMsg ''Connected to Black & White Video Processing Server'' ''c2'')],
                     pings = 0, terminated = False\<rparr>,
               isAlive = True, lastPing = 30000, ffmpegProcess = Some live_process\<rparr>],
      clients = [(''c1'', 0), (''c2'', 1)], pingInterval = True, wss_listening = True,
      timeouts = []\<rparr>"
    unfolding on_connection_state [OF o]
    by (simp add: one_session_eval accepted_client_def open_socket_def)
  have run4: "session_lost_by_monitor =
      on_close 0 ''c1'' (ping_tick 30001
        (on_connection open_socket ''c2'' 30000 (Inr live_process) (one_session 0)))"
    by (simp add: session_lost_by_monitor_def run_def one_session_def)
  show ?thesis
    unfolding run4 two
    by (simp add: ping_tick_def ping_client_def
        PONG_TIMEOUT_def deref_def store_def clients_delete_def ws_terminate_def ws_ping_def
        on_close_def mark_closed_def cleanupClient_def clients_get_def)
qed

section \<open>Claims\<close>

text \<open>C1. A session torn down by the liveness monitor should have its FFmpeg process
  signalled. The code does not do it: session \<open>c1\<close>, registered at time 0 with a running
  process, is found timed out by the tick at time 30001; the tick terminates the socket
  and deletes the id, and the \<open>close\<close> event that follows finds no client to clean up.
  The process is still running, with no signal delivered. Had the socket closed without
  the tick, the same \<open>close\<close> event would have delivered \<open>SIGTERM\<close>.\<close>

theorem timeout_leaves_process_running:
  "registered (one_session 0) ''c1''
   \<and> process_at (one_session 0) 0 = Some live_process
   \<and> \<not> registered (ping_tick 30001 (one_session 0)) ''c1''
   \<and> process_at (on_close 0 ''c1'' (ping_tick 30001 (one_session 0))) 0 = Some live_process
   \<and> signals_at (on_close 0 ''c1'' (ping_tick 30001 (one_session 0))) 0 = []
   \<and> signals_at (on_close 0 ''c1'' (one_session 0)) 0 = [SIGTERM]"
  by (simp add: one_session_eval registered_def clients_get_def deref_def process_at_def
      signals_at_def ping_tick_def ping_client_def PONG_TIMEOUT_def clients_delete_def store_def
      ws_terminate_def on_close_def mark_closed_def cleanupClient_def live_process_def kill_def)

text \<open>C2. A client that answers every probe promptly should survive the monitor. The code
  evicts it: session \<open>c1\<close> is accepted at time 59000 and probed by the tick at 60000; its
  pong arrives 5 ms later and refreshes the liveness timestamp; the next tick, one
  \<open>PING_INTERVAL\<close> later, finds the timestamp older than \<open>PONG_TIMEOUT\<close>,
  terminates the socket and removes the session.\<close>

theorem prompt_pong_is_evicted:
  "liveness_at (on_pong ''c1'' 60005 (ping_tick 60000 (one_session 59000))) 0 = Some (60005, True)
   \<and> registered (on_pong ''c1'' 60005 (ping_tick 60000 (one_session 59000))) ''c1''
   \<and> \<not> registered
         (ping_tick (60000 + PING_INTERVAL)
            (on_pong ''c1'' 60005 (ping_tick 60000 (one_session 59000)))) ''c1''
   \<and> socket_state_at
         (ping_tick (60000 + PING_INTERVAL)
            (on_pong ''c1'' 60005 (ping_tick 60000 (one_session 59000)))) 0
       = Some CLOSING"
  by (simp add: one_session_eval registered_def clients_get_def deref_def liveness_at_def
      socket_state_at_def ping_tick_def ping_client_def PONG_TIMEOUT_def PING_INTERVAL_def
      clients_delete_def store_def ws_terminate_def ws_ping_def on_pong_def)







text \<open>C4. Session teardown is idempotent: running \<open>cleanupClient\<close> a second time for the
  same id returns the state of the first run unchanged, so the two runs together remove
  the id from the registry once, deliver at most one termination signal to the FFmpeg
  process of any client object, and the second run fails nowhere.\<close>

theorem cleanupClient_idempotent:
  "cleanupClient k (cleanupClient k s) = cleanupClient k s
   \<and> \<not> registered (cleanupClient k s) k
   \<and> (signals_at (cleanupClient k (cleanupClient k s)) a = signals_at s a
      \<or> signals_at (cleanupClient k (cleanupClient k s)) a = signals_at s a @ [SIGTERM])"
proof -
  have idem: "cleanupClient k (cleanupClient k s) = cleanupClient k s"
    by (rule cleanupClient_absent) (rule cleanupClient_unregisters)
  show ?thesis
    using cleanupClient_signals [of k s a]
    by (simp add: idem registered_def cleanupClient_unregisters)
qed

theorem cleanupClient_idempotent_witness:
  "cleanupClient ''c1'' (cleanupClient ''c1'' (one_session 0)) = cleanupClient ''c1'' (one_session 0)
   \<and> registered (one_session 0) ''c1''
   \<and> \<not> registered (cleanupClient ''c1'' (one_session 0)) ''c1''
   \<and> signals_at (one_session 0) 0 = []
   \<and> signals_at (cleanupClient ''c1'' (cleanupClient ''c1'' (one_session 0))) 0 = [SIGTERM]"
proof -
  have reg: "registered (one_session 0) ''c1''"
    by (simp add: one_session_eval registered_def clients_get_def deref_def)
  have s0: "signals_at (one_session 0) 0 = []"
    by (simp add: one_session_eval signals_at_def process_at_def deref_def live_process_def)
  have s1: "signals_at (cleanupClient ''c1'' (one_session 0)) 0 = [SIGTERM]"
    by (simp add: one_session_eval cleanupClient_def clients_get_def deref_def store_def
        clients_delete_def kill_def live_process_def signals_at_def process_at_def)
  show ?thesis
    using cleanupClient_idempotent [of "''c1''" "one_session 0" 0] reg s0 s1 by simp
qed

text \<open>C5, as stated, fails: of three binary frames received, the second one empty, two are
  written to \<open>stdin\<close>.\<close>

theorem empty_frame_not_written:
  "written_at (fold (\<lambda>(t, b). on_message parse_heartbeat_only ''c1'' t (Buf b))
      [(1, [1]), (2, []), (3, [2])] (one_session 0)) 0 = [[1], [2]]"
proof -
  have c: "ffmpegProcess (heap (one_session 0) ! 0) = Some live_process"
    by (simp add: one_session_client)
  show ?thesis
    using binary_frames_written [OF one_session_get c live_process_writable,
        of parse_heartbeat_only "[(1, [1]), (2, []), (3, [2])]"] one_session_observed [of 0]
    by simp
qed

text \<open>C5, amended. In a registered session whose socket is open and whose FFmpeg process is
  not killed and has an open \<open>stdin\<close>: of any sequence of inbound binary frames, the frames
  that are not empty are written to \<open>stdin\<close> in the order received, each unchanged; empty
  frames are skipped, so the bytes written are the concatenation of all frames. Of any
  sequence of \<open>stdout\<close> chunks, those that are not empty are sent to the client as binary
  frames in the order emitted.\<close>

theorem frames_forwarded_in_order:
  assumes "clients_get s k = Some (a, c)" and "ffmpegProcess c = Some p" and "writable_process p"
    and "readyState (ws c) = OPEN"
  shows "written_at (fold (\<lambda>(t, b). on_message JSON_parse k t (Buf b)) tbs s) a
           = written_at s a @ filter (\<lambda>b. b \<noteq> []) (map snd tbs)
         \<and> concat (written_at (fold (\<lambda>(t, b). on_message JSON_parse k t (Buf b)) tbs s) a)
           = concat (written_at s a) @ concat (map snd tbs)
         \<and> frames_at (fold (ffmpeg_stdout_data a) chunks s) a
           = frames_at s a @ map BinaryOut (filter (\<lambda>b. b \<noteq> []) chunks)"
proof -
  from assms(1) have "deref s a = Some c" by (simp add: clients_get_SomeD)
  with assms(4) have op: "socket_state_at s a = Some OPEN"
    by (simp add: socket_state_at_def)
  show ?thesis
    by (simp add: binary_frames_written [OF assms(1,2,3)] stdout_chunks_sent [OF op]
        concat_nonempty)
qed


theorem frames_forwarded_in_order_witness:
  "clients_get (one_session 0) ''c1'' = Some (0, heap (one_session 0) ! 0)
   \<and> ffmpegProcess (heap (one_session 0) ! 0) = Some live_process
   \<and> writable_process live_process
   \<and> readyState (ws (heap (one_session 0) ! 0)) = OPEN
   \<and> written_at (fold (\<lambda>(t, b). on_message parse_heartbeat_only ''c1'' t (Buf b))
         [(1, [1]), (2, [2, 3]), (3, [4])] (one_session 0)) 0 = [[1], [2, 3], [4]]
   \<and> frames_at (fold (ffmpeg_stdout_data 0) [[9], [8, 7]] (one_session 0)) 0
       = [JsonText (ConnectionMsg ''Connected to Black & White Video Processing Server'' ''c1''),
          BinaryOut [9], BinaryOut [8, 7]]"
proof -
  have c: "ffmpegProcess (heap (one_session 0) ! 0) = Some live_process"
    and r: "readyState (ws (heap (one_session 0) ! 0)) = OPEN"
    by (simp_all add: one_session_client)
  show ?thesis
    using frames_forwarded_in_order [OF one_session_get c live_process_writable r,
        of parse_heartbeat_only "[(1, [1]), (2, [2, 3]), (3, [4])]" "[[9], [8, 7]]"]
      one_session_get [of 0] c r live_process_writable one_session_observed [of 0]
    by simp
qed

text \<open>C6. The transcoder cannot be launched for a connection accepted on an open socket,
  either because \<open>spawn\<close> throws or because Node reports the failure on the returned
  process. In the resulting state the client has been sent exactly one error frame, its
  socket is still open and its id registered, there is no process that can take a
  write, any sequence of inbound data frames leaves the state unchanged (they are
  dropped and nothing is sent), and every other client object, every other registry
  entry and the listening socket server are as before.\<close>

theorem launch_failure_degrades:
  assumes "readyState socket = OPEN" and "sent socket = []"
    and "s1 = on_connection socket k now (Inl e) s
         \<or> s1 = launch_failed (length (heap s)) k (on_connection socket k now (Inr p) s)"
  shows "(\<exists>m. filter is_error (frames_at s1 (length (heap s))) = [JsonText (ErrorMsg m)])
       \<and> socket_state_at s1 (length (heap s)) = Some OPEN
       \<and> map_of (clients s1) k = Some (length (heap s))
       \<and> (case process_at s1 (length (heap s)) of None \<Rightarrow> True | Some q \<Rightarrow> \<not> writable_process q)
       \<and> fold (\<lambda>(t, b). on_message JSON_parse k t (Buf b)) tbs s1 = s1
       \<and> (\<forall>b < length (heap s). deref s1 b = deref s b)
       \<and> (\<forall>k'. k' \<noteq> k \<longrightarrow> map_of (clients s1) k' = map_of (clients s) k')
       \<and> wss_listening s1 = wss_listening s"
proof -
  let ?n = "length (heap s)"
  from assms(3) obtain c1 where s1: "s1 = s\<lparr>heap := heap s @ [c1],
             clients := AList.update k ?n (clients s)\<rparr>"
    and err: "\<exists>m. filter is_error (sent (ws c1)) = [JsonText (ErrorMsg m)]"
    and op: "readyState (ws c1) = OPEN"
    and nw: "\<not> (case ffmpegProcess c1 of None \<Rightarrow> False | Some q \<Rightarrow> writable_process q)"
  proof
    assume "s1 = on_connection socket k now (Inl e) s"
    then have "s1 = s\<lparr>heap := heap s @ [accepted_client socket k now (Inl e)],
             clients := AList.update k ?n (clients s)\<rparr>"
      by (simp add: on_connection_state [OF assms(1)])
    then show thesis
      by (rule that) (simp_all add: accepted_client_def assms)
  next
    assume "s1 = launch_failed ?n k (on_connection socket k now (Inr p) s)"
    then have "s1 = s\<lparr>heap := heap s @
                  [(accepted_client socket k now (Inr p))
                     \<lparr>ffmpegProcess := Some (process_gone p),
                      ws := ws_send (JsonText (ErrorMsg ''FFmpeg process error occurred''))
                              (ws (accepted_client socket k now (Inr p)))\<rparr>],
             clients := AList.update k ?n (clients s)\<rparr>"
      by (simp add: launch_failed_state [OF assms(1)])
    then show thesis
      by (rule that)
         (simp_all add: accepted_client_def assms ws_send_def process_gone_not_writable)
  qed
  have d: "deref s1 ?n = Some c1" by (simp add: s1 deref_def)
  have m: "map_of (clients s1) k = Some ?n" by (simp add: s1 AList.update_conv')
  from d m have g: "clients_get s1 k = Some (?n, c1)" by (simp add: clients_get_def)
  have fr: "frames_at s1 ?n = sent (ws c1)" using d by (simp add: frames_at_def)
  have st: "socket_state_at s1 ?n = Some OPEN" using d op by (simp add: socket_state_at_def)
  have pr: "case process_at s1 ?n of None \<Rightarrow> True | Some q \<Rightarrow> \<not> writable_process q"
    using d nw by (simp add: process_at_def split: option.splits)
  have dr: "fold (\<lambda>(t, b). on_message JSON_parse k t (Buf b)) tbs s1 = s1"
    by (rule data_frames_dropped [OF g nw])
  have others: "\<forall>b < ?n. deref s1 b = deref s b"
    by (simp add: s1 deref_def nth_append)
  have ids: "\<forall>k'. k' \<noteq> k \<longrightarrow> map_of (clients s1) k' = map_of (clients s) k'"
    by (simp add: s1 AList.update_conv')
  have l: "wss_listening s1 = wss_listening s" by (simp add: s1)
  from err fr st m pr dr others ids l show ?thesis by simp
qed


theorem launch_failure_degrades_witness:
  "readyState open_socket = OPEN \<and> sent open_socket = []
   \<and> filter is_error
        (frames_at (on_connection open_socket ''c2'' 7 (Inl SpawnError) (one_session 0)) 1)
       = [JsonText (ErrorMsg ''Failed to initialize black & white video processing'')]
   \<and> socket_state_at (on_connection open_socket ''c2'' 7 (Inl SpawnError) (one_session 0)) 1
       = Some OPEN
   \<and> map_of (clients (on_connection open_socket ''c2'' 7 (Inl SpawnError) (one_session 0))) ''c2''
       = Some 1
   \<and> fold (\<lambda>(t, b). on_message parse_heartbeat_only ''c2'' t (Buf b)) [(8, [1]), (9, [2])]
        (on_connection open_socket ''c2'' 7 (Inl SpawnError) (one_session 0))
       = on_connection open_socket ''c2'' 7 (Inl SpawnError) (one_session 0)
   \<and> deref (on_connection open_socket ''c2'' 7 (Inl SpawnError) (one_session 0)) 0
       = deref (one_session 0) 0
   \<and> filter is_error
        (frames_at (launch_failed 1 ''c2''
           (on_connection open_socket ''c2'' 7 (Inr live_process) (one_session 0))) 1)
       = [JsonText (ErrorMsg ''FFmpeg process error occurred'')]
   \<and> socket_state_at (launch_failed 1 ''c2''
           (on_connection open_socket ''c2'' 7 (Inr live_process) (one_session 0))) 1
       = Some OPEN
   \<and> fold (\<lambda>(t, b). on_message parse_heartbeat_only ''c2'' t (Buf b)) [(8, [1]), (9, [2])]
        (launch_failed 1 ''c2''
           (on_connection open_socket ''c2'' 7 (Inr live_process) (one_session 0)))
       = launch_failed 1 ''c2''
           (on_connection open_socket ''c2'' 7 (Inr live_process) (one_session 0))"
proof -
  have o: "readyState open_socket = OPEN" and e: "sent open_socket = []"
    by (simp_all add: open_socket_def)
  have h: "length (heap (one_session 0)) = 1"
    by (simp add: one_session_eval)
  have fa: "frames_at (on_connection open_socket ''c2'' 7 (Inl SpawnError) (one_session 0)) 1
       = [JsonText (ErrorMsg ''Failed to initialize black & white video processing''),
          JsonText (ConnectionMsg ''Connected to Black & White Video Processing Server'' ''c2'')]"
    by (simp add: on_connection_state [OF o] h frames_at_def deref_def accepted_client_def e
        nth_append)
  have fb: "frames_at (launch_failed 1 ''c2''
           (on_connection open_socket ''c2'' 7 (Inr live_process) (one_session 0))) 1
       = [JsonText (ConnectionMsg ''Connected to Black & White Video Processing Server'' ''c2''),
          JsonText (ErrorMsg ''FFmpeg process error occurred'')]"
    using launch_failed_state [OF o, of "one_session 0" "''c2''" 7 live_process]
    by (simp add: h frames_at_def deref_def accepted_client_def e ws_send_def nth_append)
  note a = launch_failure_degrades [OF o e disjI1 [OF refl], where k = "''c2''" and now = 7
      and e = SpawnError and s = "one_session 0" and JSON_parse = parse_heartbeat_only
      and tbs = "[(8, [1]), (9, [2])]", unfolded h]
  note b = launch_failure_degrades [OF o e disjI2 [OF refl], where k = "''c2''" and now = 7
      and p = live_process and s = "one_session 0" and JSON_parse = parse_heartbeat_only
      and tbs = "[(8, [1]), (9, [2])]", unfolded h]
  show ?thesis
    using a b o e fa fb by simp
qed

text \<open>C7, as stated, fails in its last part: the session does not always continue until the
  client disconnects. The session \<open>c1\<close> loses its FFmpeg process, then takes part in the
  events \<open>degraded_events\<close>, after which it is registered with its socket open. The client
  then stays silent and never disconnects; the tick at 180000 terminates the socket and
  removes the session. \<open>disconnectClient\<close> and \<open>close\<close> of the service end the session as
  well.\<close>

theorem degraded_session_ends_without_disconnect:
  "registered (run parse_control_messages degraded_events (ffmpeg_on_exit 0 (one_session 50000))) ''c1''
   \<and> socket_state_at (run parse_control_messages degraded_events
        (ffmpeg_on_exit 0 (one_session 50000))) 0 = Some OPEN
   \<and> \<not> registered (run parse_control_messages (degraded_events @ [PingTick 180000])
        (ffmpeg_on_exit 0 (one_session 50000))) ''c1''
   \<and> socket_state_at (run parse_control_messages (degraded_events @ [PingTick 180000])
        (ffmpeg_on_exit 0 (one_session 50000))) 0 = Some CLOSING
   \<and> \<not> registered (snd (disconnectClient ''c1'' (ffmpeg_on_exit 0 (one_session 50000)))) ''c1''
   \<and> \<not> registered (close (ffmpeg_on_exit 0 (one_session 50000))) ''c1''"
  by (simp add: degraded_events_def run_def one_session_eval ffmpeg_on_exit_def deref_def store_def
      on_message_def is_heartbeat_def parse_control_messages_def
      heartbeat_text_def test_text_def heartbeat_def forward_def
      sendToFFmpeg_def clients_get_def on_connection_def clients_set_def createFFmpegProcess_def
      sendToClient_def ws_send_def open_socket_def Let_def PONG_TIMEOUT_def
      ping_tick_def ping_client_def clients_delete_def ws_terminate_def ws_ping_def on_pong_def
      ffmpeg_stdout_data_def registered_def socket_state_at_def disconnectClient_def ws_close_def
      close_def close_client_def cleanupClient_def)

text \<open>C7, amended. For a session registered under \<open>k\<close> with its client object at \<open>a\<close> in a
  well-formed registry: the \<open>exit\<close> callback leaves the registry, the state of the socket
  and the frames sent on it as they are. After it, whatever events follow (new connections,
  frames, pongs, ticks, socket and process events, public operations), the object's
  \<open>ffmpegProcess\<close> field is cleared and stays cleared: no replacement process is ever
  stored. In every such state where \<open>k\<close> is still registered at \<open>a\<close>, a frame that does not
  carry the heartbeat control message, however it is handed to the message callback, is
  dropped: the callback returns the state unchanged, so nothing is written or retried and
  the session is neither unregistered nor closed. And over every sequence of events that
  contains no teardown trigger for the session (\<open>undisturbed\<close>), the session is still
  registered under \<open>k\<close> at \<open>a\<close> and the state of its socket is what it was before the
  exit.\<close>

theorem no_respawn_after_exit:
  assumes "well_formed s" and "map_of (clients s) k = Some a"
  shows "clients (ffmpeg_on_exit a s) = clients s
       \<and> socket_state_at (ffmpeg_on_exit a s) a = socket_state_at s a
       \<and> frames_at (ffmpeg_on_exit a s) a = frames_at s a
       \<and> (\<exists>c'. deref (run JSON_parse evs (ffmpeg_on_exit a s)) a = Some c'
              \<and> ffmpegProcess c' = None)
       \<and> (map_of (clients (run JSON_parse evs (ffmpeg_on_exit a s))) k = Some a
            \<and> \<not> heartbeat_control_frame JSON_parse fr
            \<longrightarrow> on_message JSON_parse k now (deliver dm fr)
                  (run JSON_parse evs (ffmpeg_on_exit a s))
                = run JSON_parse evs (ffmpeg_on_exit a s))
       \<and> (undisturbed JSON_parse k a evs (ffmpeg_on_exit a s)
            \<longrightarrow> map_of (clients (run JSON_parse evs (ffmpeg_on_exit a s))) k = Some a
              \<and> socket_state_at (run JSON_parse evs (ffmpeg_on_exit a s)) a
                  = socket_state_at s a)"
proof -
  let ?s1 = "ffmpeg_on_exit a s"
  from assms have lt: "a < length (heap s)"
    by (auto simp add: well_formed_def list_all_iff dest: map_of_SomeD)
  then have d: "deref s a = Some (heap s ! a)" by (simp add: deref_def)
  have s1: "?s1 = store a ((heap s ! a)\<lparr>ffmpegProcess := None\<rparr>) s"
    using d by (simp add: ffmpeg_on_exit_def)
  have cl: "clients ?s1 = clients s" by (simp add: s1 clients_store)
  have ex: "deref ?s1 a = Some ((heap s ! a)\<lparr>ffmpegProcess := None\<rparr>)"
    using lt by (simp add: s1 deref_store)
  have so: "socket_state_at ?s1 a = socket_state_at s a"
    and fr: "frames_at ?s1 a = frames_at s a"
    using d ex by (simp_all add: socket_state_at_def frames_at_def)
  from evolves_run [of a ?s1 JSON_parse evs] ex
  obtain c' where c': "deref (run JSON_parse evs ?s1) a = Some c'"
      "carries_on ((heap s ! a)\<lparr>ffmpegProcess := None\<rparr>) c'"
    by (auto simp add: evolves_def)
  then have none: "ffmpegProcess c' = None" by (simp add: carries_on_def)
  have dropped: "on_message JSON_parse k now (deliver dm fr) (run JSON_parse evs ?s1)
            = run JSON_parse evs ?s1"
    if reg: "map_of (clients (run JSON_parse evs ?s1)) k = Some a"
      and data: "\<not> heartbeat_control_frame JSON_parse fr"
  proof -
    from reg c'(1) have g: "clients_get (run JSON_parse evs ?s1) k = Some (a, c')"
      by (simp add: clients_get_def)
    show ?thesis
      using sendToFFmpeg_drops [OF g, of "payload fr"] none other_frame_is_data [OF data, of dm]
      by (simp add: on_message_data forward_def)
  qed
  have w1: "well_formed ?s1"
    using well_formed_step [OF assms(1), of JSON_parse "FfmpegExit a"] by simp
  have m1: "map_of (clients ?s1) k = Some a" using assms(2) cl by simp
  have cont: "map_of (clients (run JSON_parse evs ?s1)) k = Some a
              \<and> socket_state_at (run JSON_parse evs ?s1) a = socket_state_at s a"
    if quiet: "undisturbed JSON_parse k a evs (ffmpeg_on_exit a s)"
    using kept_run [OF w1 m1 quiet] m1 so by (simp add: session_kept_def)
  from cl so fr c'(1) none dropped cont show ?thesis by blast
qed

theorem no_respawn_after_exit_witness:
  "well_formed (one_session 50000) \<and> map_of (clients (one_session 50000)) ''c1'' = Some 0
   \<and> process_at (one_session 50000) 0 = Some live_process
   \<and> \<not> undisturbed parse_control_messages ''c1'' 0 (degraded_events @ [PingTick 180000])
        (ffmpeg_on_exit 0 (one_session 50000))
   \<and> process_at (run parse_control_messages (degraded_events @ [PingTick 180000])
        (ffmpeg_on_exit 0 (one_session 50000))) 0 = None
   \<and> undisturbed parse_control_messages ''c1'' 0 degraded_events
        (ffmpeg_on_exit 0 (one_session 50000))
   \<and> map_of (clients (run parse_control_messages degraded_events
        (ffmpeg_on_exit 0 (one_session 50000)))) ''c1'' = Some 0
   \<and> socket_state_at (run parse_control_messages degraded_events
        (ffmpeg_on_exit 0 (one_session 50000))) 0 = Some OPEN
   \<and> \<not> heartbeat_control_frame parse_control_messages (BinaryFrame [7])
   \<and> on_message parse_control_messages ''c1'' 120001 (deliver TextAsBuffer (BinaryFrame [7]))
        (run parse_control_messages degraded_events (ffmpeg_on_exit 0 (one_session 50000)))
       = run parse_control_messages degraded_events (ffmpeg_on_exit 0 (one_session 50000))"
proof -
  have w: "well_formed (one_session 50000)"
    and m: "map_of (clients (one_session 50000)) ''c1'' = Some 0"
    by (simp_all add: one_session_well_formed)
  have p0: "process_at (one_session 50000) 0 = Some live_process"
    and s0: "socket_state_at (one_session 50000) 0 = Some OPEN"
    by (simp_all add: one_session_eval process_at_def socket_state_at_def deref_def)
  note q = degraded_events_undisturbed
  note nq = degraded_events_then_silence
  have nh: "\<not> heartbeat_control_frame parse_control_messages (BinaryFrame [7])"
    by (simp add: heartbeat_control_frame_def)
  note t1 = no_respawn_after_exit [OF w m, where JSON_parse = parse_control_messages
      and evs = "degraded_events @ [PingTick 180000]" and fr = "BinaryFrame [7]"
      and dm = TextAsBuffer and now = 120001]
  note t2 = no_respawn_after_exit [OF w m, where JSON_parse = parse_control_messages
      and evs = degraded_events and fr = "BinaryFrame [7]" and dm = TextAsBuffer
      and now = 120001]
  from t1 have pn: "process_at (run parse_control_messages (degraded_events @ [PingTick 180000])
      (ffmpeg_on_exit 0 (one_session 50000))) 0 = None"
    by (auto simp add: process_at_def)
  from t2 q s0
  have reg: "map_of (clients (run parse_control_messages degraded_events
        (ffmpeg_on_exit 0 (one_session 50000)))) ''c1'' = Some 0"
    and sock: "socket_state_at (run parse_control_messages degraded_events
        (ffmpeg_on_exit 0 (one_session 50000))) 0 = Some OPEN"
    by simp_all
  from t2 reg nh
  have dr: "on_message parse_control_messages ''c1'' 120001 (deliver TextAsBuffer (BinaryFrame [7]))
        (run parse_control_messages degraded_events (ffmpeg_on_exit 0 (one_session 50000)))
       = run parse_control_messages degraded_events (ffmpeg_on_exit 0 (one_session 50000))"
    by simp
  show ?thesis
    using w m p0 nq pn q reg sock nh dr by simp
qed

text \<open>C8. Shutdown should leave no FFmpeg process behind. The code leaves one: in a
  reachable, well-formed state where the monitor has evicted session \<open>c1\<close> (its process
  still running, as in C1) and \<open>c2\<close> is registered, \<open>gracefulShutdown\<close> runs \<open>close\<close>, which
  walks the registry only. The process of \<open>c2\<close> gets \<open>SIGTERM\<close>; the process of \<open>c1\<close> gets
  no signal and is still running when the process exits, by the server's close callback
  or by the forced-exit timer.\<close>

theorem shutdown_misses_evicted_session:
  "well_formed session_lost_by_monitor
   \<and> clients session_lost_by_monitor = [(''c2'', 1)]
   \<and> process_at session_lost_by_monitor 0 = Some live_process
   \<and> wsService (gracefulShutdown app_with_lost_session) = Some (close session_lost_by_monitor)
   \<and> clients (close session_lost_by_monitor) = []
   \<and> process_at (close session_lost_by_monitor) 0 = Some live_process
   \<and> signals_at (close session_lost_by_monitor) 0 = []
   \<and> signals_at (close session_lost_by_monitor) 1 = [SIGTERM]
   \<and> exit_code (forced_exit (gracefulShutdown app_with_lost_session)) = Some 1
   \<and> exit_code (server_closed (gracefulShutdown app_with_lost_session)) = Some 0"
  by (simp add: session_lost_by_monitor_eval well_formed_def app_with_lost_session_def
      gracefulShutdown_def Let_def close_def close_client_def cleanupClient_def clients_get_def
      deref_def store_def clients_delete_def kill_def live_process_def ws_close_def
      process_at_def signals_at_def forced_exit_def server_closed_def process_exit_def)


text \<open>C9, as stated, fails: when \<open>spawn\<close> throws, \<open>createFFmpegProcess\<close> sends its error
  frame before the connection callback sends the connection frame.\<close>

theorem error_frame_before_connection_frame:
  "frames_at (accept_connection open_socket entropy_a 0 (Inl SpawnError) initial_service) 0
     = [JsonText (ErrorMsg ''Failed to initialize black & white video processing''),
        JsonText (ConnectionMsg ''Connected to Black & White Video Processing Server''
          ''00010203-0405-4607-8809-0a0b0c0d0eff'')]"
proof -
  have o: "readyState open_socket = OPEN" and e: "sent open_socket = []"
    by (simp_all add: open_socket_def)
  show ?thesis
    using uuidv4_examples
    by (simp add: accept_connection_def Let_def on_connection_state [OF o] frames_at_def deref_def
        accepted_client_def e initial_service_def)
qed


text \<open>C9, amended. For every connection accepted on an open socket on which nothing was
  sent yet, with 16 random bytes drawn for its id, and for every sequence of events that
  follows: the generated id is not empty (it has 36 characters); among the frames sent to
  that client there is exactly one connection frame, and it carries this id; when the
  \<open>spawn\<close> call returned a process (did not throw), the connection frame is the first
  frame sent to the client. The id is fresh in this sense: it differs from the id of every
  draw that differs from this one outside the version and variant bits, so when all
  registered ids come from such draws, the id was not registered before and the registry
  grows by exactly this entry.\<close>

theorem connection_frame_once:
  assumes "readyState socket = OPEN" and "sent socket = []" and "length rnds = 16"
  shows "uuidv4 rnds \<noteq> [] \<and> length (uuidv4 rnds) = 36
       \<and> filter is_connection
           (frames_at (run JSON_parse evs (accept_connection socket rnds now spawned s))
              (length (heap s)))
           = [JsonText (ConnectionMsg ''Connected to Black & White Video Processing Server''
                (uuidv4 rnds))]
       \<and> (spawned = Inr p \<longrightarrow>
            take 1 (frames_at (run JSON_parse evs (accept_connection socket rnds now spawned s))
                      (length (heap s)))
              = [JsonText (ConnectionMsg ''Connected to Black & White Video Processing Server''
                   (uuidv4 rnds))])
       \<and> (\<forall>r. length r = 16 \<and> set_version_bits r \<noteq> set_version_bits rnds
              \<longrightarrow> uuidv4 r \<noteq> uuidv4 rnds)
       \<and> ((\<forall>k \<in> fst ` set (clients s).
              \<exists>r. length r = 16 \<and> k = uuidv4 r \<and> set_version_bits r \<noteq> set_version_bits rnds)
            \<longrightarrow> uuidv4 rnds \<notin> fst ` set (clients s)
              \<and> clients (accept_connection socket rnds now spawned s)
                  = clients s @ [(uuidv4 rnds, length (heap s))])"
proof -
  have len: "length (uuidv4 rnds) = 36" by (rule length_uuidv4 [OF assms(3)])
  then have ne: "uuidv4 rnds \<noteq> []" by auto
  have inj: "\<forall>r. length r = 16 \<and> set_version_bits r \<noteq> set_version_bits rnds
              \<longrightarrow> uuidv4 r \<noteq> uuidv4 rnds"
    using uuidv4_inj [OF _ assms(3)] by blast
  have fresh: "uuidv4 rnds \<notin> fst ` set (clients s)
              \<and> clients (accept_connection socket rnds now spawned s)
                  = clients s @ [(uuidv4 rnds, length (heap s))]"
    if h: "\<forall>k \<in> fst ` set (clients s).
              \<exists>r. length r = 16 \<and> k = uuidv4 r \<and> set_version_bits r \<noteq> set_version_bits rnds"
  proof -
    have new: "uuidv4 rnds \<notin> fst ` set (clients s)"
    proof
      assume "uuidv4 rnds \<in> fst ` set (clients s)"
      with h obtain r where "length r = 16" "uuidv4 rnds = uuidv4 r"
        "set_version_bits r \<noteq> set_version_bits rnds"
        by blast
      with inj show False by metis
    qed
    then show ?thesis
      by (simp add: accept_connection_def Let_def on_connection_state [OF assms(1)] update_new_key)
  qed
  from on_connection_frames [OF assms(1,2), of JSON_parse evs "uuidv4 rnds" now spawned s p]
    len ne inj fresh
  show ?thesis by (simp add: accept_connection_def Let_def)
qed

theorem connection_frame_once_witness:
  "readyState open_socket = OPEN \<and> sent open_socket = [] \<and> length entropy_b = 16
   \<and> uuidv4 entropy_b = ''10203040-5060-4080-90a0-b0c0d0e0f001''
   \<and> clients (accept_connection open_socket entropy_a 0 (Inr live_process) initial_service)
       = [(uuidv4 entropy_a, 0)]
   \<and> length entropy_a = 16 \<and> set_version_bits entropy_a \<noteq> set_version_bits entropy_b
   \<and> filter is_connection
        (frames_at (run parse_heartbeat_only
             [FfmpegStdout 1 [1], FfmpegError (uuidv4 entropy_b)]
             (accept_connection open_socket entropy_b 1 (Inr live_process)
                (accept_connection open_socket entropy_a 0 (Inr live_process) initial_service))) 1)
       = [JsonText (ConnectionMsg ''Connected to Black & White Video Processing Server''
            ''10203040-5060-4080-90a0-b0c0d0e0f001'')]
   \<and> take 1
        (frames_at (run parse_heartbeat_only
             [FfmpegStdout 1 [1], FfmpegError (uuidv4 entropy_b)]
             (accept_connection open_socket entropy_b 1 (Inr live_process)
                (accept_connection open_socket entropy_a 0 (Inr live_process) initial_service))) 1)
       = [JsonText (ConnectionMsg ''Connected to Black & White Video Processing Server''
            ''10203040-5060-4080-90a0-b0c0d0e0f001'')]
   \<and> clients (accept_connection open_socket entropy_b 1 (Inr live_process)
        (accept_connection open_socket entropy_a 0 (Inr live_process) initial_service))
       = [(''00010203-0405-4607-8809-0a0b0c0d0eff'', 0),
          (''10203040-5060-4080-90a0-b0c0d0e0f001'', 1)]"
proof -
  let ?s0 = "accept_connection open_socket entropy_a 0 (Inr live_process) initial_service"
  have o: "readyState open_socket = OPEN" and e: "sent open_socket = []"
    by (simp_all add: open_socket_def)
  have la: "length entropy_a = 16" and lb: "length entropy_b = 16"
    by (simp_all add: entropy_a_def entropy_b_def)
  have bits: "set_version_bits entropy_a \<noteq> set_version_bits entropy_b"
    by (simp add: set_version_bits_def entropy_a_def entropy_b_def)
  note f = first_uuid_session
  have others: "\<forall>k \<in> fst ` set (clients ?s0).
      \<exists>r. length r = 16 \<and> k = uuidv4 r \<and> set_version_bits r \<noteq> set_version_bits entropy_b"
    using la bits by (auto simp add: f)
  note t = connection_frame_once [OF o e lb, where JSON_parse = parse_heartbeat_only
      and evs = "[FfmpegStdout 1 [1], FfmpegError (uuidv4 entropy_b)]" and now = 1
      and spawned = "Inr live_process" and p = live_process and s = ?s0]
  from t others have grown: "clients (accept_connection open_socket entropy_b 1 (Inr live_process) ?s0)
      = clients ?s0 @ [(uuidv4 entropy_b, length (heap ?s0))]"
    by blast
  show ?thesis
    using t o e la lb bits grown f uuidv4_examples by simp
qed


text \<open>C10. \<open>disconnectClient\<close> returns true exactly when the id is registered; it then
  removes the id from the registry, and otherwise leaves the whole state unchanged. In
  both cases the FFmpeg process of every client object is what it was before the call (no
  signal, no change of the \<open>ffmpegProcess\<close> field) and no force-kill timer is armed.\<close>

theorem disconnectClient_frame:
  "fst (disconnectClient k s) = registered s k
   \<and> (registered s k \<longrightarrow>
        clients (snd (disconnectClient k s)) = AList.delete k (clients s)
        \<and> \<not> registered (snd (disconnectClient k s)) k)
   \<and> (\<not> registered s k \<longrightarrow> snd (disconnectClient k s) = s)
   \<and> process_at (snd (disconnectClient k s)) a = process_at s a
   \<and> timeouts (snd (disconnectClient k s)) = timeouts s"
proof (cases "clients_get s k")
  case None
  then show ?thesis
    by (simp add: disconnectClient_def registered_def)
next
  case (Some e)
  obtain b c where e: "e = (b, c)" by (cases e)
  have cl: "clients (clients_delete k s') = AList.delete k (clients s')" for s'
    by (simp add: clients_delete_def)
  have tm: "timeouts (clients_delete k s') = timeouts s'" for s'
    by (simp add: clients_delete_def)
  show ?thesis
    using Some e disconnectClient_processes [of k s a]
    by (simp add: disconnectClient_def registered_def clients_get_deleted cl tm clients_store
        timeouts_store)
qed

theorem disconnectClient_frame_witness:
  "registered (one_session 0) ''c1''
   \<and> fst (disconnectClient ''c1'' (one_session 0))
   \<and> clients (snd (disconnectClient ''c1'' (one_session 0))) = []
   \<and> process_at (snd (disconnectClient ''c1'' (one_session 0))) 0 = Some live_process
   \<and> \<not> registered (one_session 0) ''c2''
   \<and> disconnectClient ''c2'' (one_session 0) = (False, one_session 0)"
proof -
  have reg: "registered (one_session 0) ''c1''"
    by (simp add: one_session_eval registered_def clients_get_def deref_def)
  have nreg: "\<not> registered (one_session 0) ''c2''"
    by (simp add: one_session_eval registered_def clients_get_def deref_def)
  have cl: "AList.delete ''c1'' (clients (one_session 0)) = []"
    by (simp add: one_session_eval)
  have pr: "process_at (one_session 0) 0 = Some live_process"
    by (simp add: one_session_eval process_at_def deref_def)
  have f: "fst (disconnectClient ''c2'' (one_session 0)) = False"
    using disconnectClient_frame [of "''c2''" "one_session 0" 0] nreg by simp
  have sn: "snd (disconnectClient ''c2'' (one_session 0)) = one_session 0"
    using disconnectClient_frame [of "''c2''" "one_session 0" 0] nreg by simp
  have "disconnectClient ''c2'' (one_session 0) = (False, one_session 0)"
    using f sn by (simp add: prod_eq_iff)
  then show ?thesis
    using disconnectClient_frame [of "''c1''" "one_session 0" 0] reg nreg cl pr by simp
qed

end
